theory Spec2Isabelle
  imports Complex_Main "HOL-Library.AList"
begin

section \<open>Single Cell Survival: the match simulation core\<close>

text \<open>
  A shallow embedding of the simulation core of the game: \<^verbatim>\<open>core/hexUtils.js\<close>,
  \<^verbatim>\<open>core/config.js\<close>, \<^verbatim>\<open>core/types.js\<close>, the \<^verbatim>\<open>Tile\<close> and \<^verbatim>\<open>Player\<close> classes,
  \<^verbatim>\<open>GameState\<close>, \<^verbatim>\<open>game/TileFallManager.js\<close> and \<^verbatim>\<open>game/InputHandler.js\<close>.

  Conventions of the embedding.
  \<^item> Integer-valued JavaScript numbers (hex coordinates, the grid radius, the timing
    constants) are \<^typ>\<open>int\<close>. Pixel coordinates, velocities and clock readings are
    \<^typ>\<open>real\<close>, and the simulation (movement, timers, animations) is followed in exact
    arithmetic: its theorems are about the control flow and the state updates of the code.
    Where the outcome of a rounding decides a property (the index drawn with
    \<^verbatim>\<open>Math.random()\<close>, the round trip through pixel coordinates), every operation is
    rounded to the nearest double, as the program computes it.
  \<^item> A class is a record; a field that would clash with a variable name or with a field
    of another class carries a prefix (\<open>p_x\<close> for \<^verbatim>\<open>player.x\<close>).
  \<^item> \<^verbatim>\<open>Player\<close> objects are shared between \<^verbatim>\<open>players\<close>, \<^verbatim>\<open>alivePlayers\<close> and the
    callers, and compared by identity (\<^verbatim>\<open>p !== player\<close>): they live in a store indexed
    by references, and the rosters hold references.
  \<^item> A JavaScript \<^verbatim>\<open>Map\<close> iterates in insertion order: it is an association list,
    read with \<^const>\<open>map_of\<close> and written with \<^const>\<open>AList.update\<close>.
  \<^item> \<^verbatim>\<open>setTimeout\<close>/\<^verbatim>\<open>clearTimeout\<close> act on an explicit queue of pending timers;
    \<^verbatim>\<open>performance.now()\<close> reads an explicit clock; \<^verbatim>\<open>Math.random()\<close> is an argument.
  \<^item> \<^verbatim>\<open>events.emit\<close> appends to a trace of emitted notifications.
  \<^item> Fields that only feed the drawing code (spawn, jiggle, sink, wobble, eye, squash
    and stretch, shatter pieces) are left out.
\<close>

subsection \<open>JavaScript numbers\<close>

text \<open>
  A JavaScript number is an IEEE 754 double: a multiple \<open>m \<times> 2\<^sup>e\<close> of a power of two with
  \<open>\<bar>m\<bar> \<le> 2\<^sup>5\<^sup>3\<close> and \<open>e \<ge> -1074\<close>. The result of an arithmetic operation is the exact
  result rounded to the nearest such number, a tie going to the even multiple.
  \<open>ulp_exponent v\<close> is the exponent \<open>e\<close> of the doubles around \<open>v\<close>: the binary exponent of
  \<open>v\<close> less the 52 fraction bits, and \<open>-1074\<close> in the subnormal range. The infinities,
  \<^verbatim>\<open>NaN\<close> and the sign of zero are not represented: what is proved with \<open>toDouble\<close> is
  about magnitudes far below the largest double.
\<close>

definition round_even :: "real \<Rightarrow> int" where
  "round_even v =
     (let n = \<lfloor>v\<rfloor>;
          d = v - of_int n
      in if d < 1 / 2 then n else if 1 / 2 < d then n + 1 else if even n then n else n + 1)"

definition ulp_exponent :: "real \<Rightarrow> int" where
  "ulp_exponent v = max (\<lfloor>log 2 \<bar>v\<bar>\<rfloor> - 52) (- 1074)"

definition toDouble :: "real \<Rightarrow> real" where
  "toDouble v =
     (if v = 0 then 0
      else of_int (round_even (v / 2 powi ulp_exponent v)) * 2 powi ulp_exponent v)"

text \<open>
  The finite numbers a JavaScript variable can hold: the numbers that rounding leaves as
  they are, below \<open>2\<^sup>1\<^sup>0\<^sup>2\<^sup>4\<close> in magnitude.
\<close>

definition isDouble :: "real \<Rightarrow> bool" where
  "isDouble v \<longleftrightarrow> toDouble v = v \<and> \<bar>v\<bar> < 2 ^ 1024"

text \<open>
  An error bound: \<open>v\<close> is within \<open>d\<close> of the exact value \<open>w\<close>, whose magnitude is at most
  \<open>m\<close>.
\<close>

definition close_to :: "real \<Rightarrow> real \<Rightarrow> real \<Rightarrow> real \<Rightarrow> bool" where
  "close_to v w d m \<longleftrightarrow> \<bar>v - w\<bar> \<le> d \<and> \<bar>w\<bar> \<le> m"

subsection \<open>core/hexUtils.js\<close>

datatype HexPosition = HexPosition (hex_q: int) (hex_r: int)

text \<open>Template-literal printing of an integer-valued number, as \<^verbatim>\<open>`${this.q}`\<close> does.\<close>

definition digit :: "nat \<Rightarrow> char" where
  "digit n = ''0123456789'' ! n"

fun showNat :: "nat \<Rightarrow> string" where
  "showNat n = (if n < 10 then [digit n] else showNat (n div 10) @ [digit (n mod 10)])"

declare showNat.simps [simp del]

definition showInt :: "int \<Rightarrow> string" where
  "showInt i = (if i < 0 then CHR ''-'' # showNat (nat (- i)) else showNat (nat i))"

definition toKey :: "HexPosition \<Rightarrow> string" where
  "toKey pos = showInt (hex_q pos) @ '','' @ showInt (hex_r pos)"

text \<open>
  \<^verbatim>\<open>Math.round\<close>: the nearest integer, a tie going up. The three functions that follow
  are \<^verbatim>\<open>hexRound\<close>, \<^verbatim>\<open>pixelToAxial\<close> and \<^verbatim>\<open>axialToPixel\<close> in exact arithmetic, which is
  how the simulation reads them.
\<close>

definition math_round :: "real \<Rightarrow> int" where
  "math_round v = \<lfloor>v + 1 / 2\<rfloor>"

definition hexRound :: "real \<Rightarrow> real \<Rightarrow> HexPosition" where
  "hexRound q r =
     (let s = - q - r;
          rq = math_round q;
          rr = math_round r;
          rs = math_round s;
          qDiff = \<bar>of_int rq - q\<bar>;
          rDiff = \<bar>of_int rr - r\<bar>;
          sDiff = \<bar>of_int rs - s\<bar>
      in if qDiff > rDiff \<and> qDiff > sDiff then HexPosition (- rr - rs) rr
         else if rDiff > sDiff then HexPosition rq (- rq - rs)
         else HexPosition rq rr)"

definition pixelToAxial :: "real \<Rightarrow> real \<Rightarrow> real \<Rightarrow> real \<Rightarrow> real \<Rightarrow> HexPosition" where
  "pixelToAxial x y hexRadius centerX centerY =
     (let relX = x - centerX;
          relY = y - centerY;
          q = (sqrt 3 / 3 * relX - 1 / 3 * relY) / hexRadius;
          r = (2 / 3 * relY) / hexRadius
      in hexRound q r)"

definition axialToPixel :: "HexPosition \<Rightarrow> real \<Rightarrow> real \<Rightarrow> real \<Rightarrow> real \<times> real" where
  "axialToPixel pos hexRadius centerX centerY =
     (hexRadius * (sqrt 3 * of_int (hex_q pos) + sqrt 3 / 2 * of_int (hex_r pos)) + centerX,
      hexRadius * (1.5 * of_int (hex_r pos)) + centerY)"

text \<open>
  The same three functions as the program computes them, each operation rounded to a
  double in the order JavaScript evaluates the expression. \<^verbatim>\<open>Math.sqrt(3)\<close> is the
  double nearest to the square root of 3; the quotients \<^verbatim>\<open>Math.sqrt(3) / 2\<close>,
  \<^verbatim>\<open>Math.sqrt(3) / 3\<close>, \<^verbatim>\<open>1 / 3\<close> and \<^verbatim>\<open>2 / 3\<close> and every product, sum and difference
  are rounded; \<^verbatim>\<open>-q - r\<close> negates exactly and rounds the difference. \<^verbatim>\<open>Math.round\<close> and
  \<^verbatim>\<open>Math.abs\<close> are exact, and so are the sums of the small integers \<^verbatim>\<open>-rr - rs\<close> and
  \<^verbatim>\<open>-rq - rs\<close>.
\<close>

definition hexRound_double :: "real \<Rightarrow> real \<Rightarrow> HexPosition" where
  "hexRound_double q r =
     (let s = toDouble (- q - r);
          rq = math_round q;
          rr = math_round r;
          rs = math_round s;
          qDiff = \<bar>toDouble (of_int rq - q)\<bar>;
          rDiff = \<bar>toDouble (of_int rr - r)\<bar>;
          sDiff = \<bar>toDouble (of_int rs - s)\<bar>
      in if qDiff > rDiff \<and> qDiff > sDiff then HexPosition (- rr - rs) rr
         else if rDiff > sDiff then HexPosition rq (- rq - rs)
         else HexPosition rq rr)"

definition pixelToAxial_double :: "real \<Rightarrow> real \<Rightarrow> real \<Rightarrow> real \<Rightarrow> real \<Rightarrow> HexPosition" where
  "pixelToAxial_double x y hexRadius centerX centerY =
     (let relX = toDouble (x - centerX);
          relY = toDouble (y - centerY);
          q = toDouble (toDouble (toDouble (toDouble (toDouble (sqrt 3) / 3) * relX)
                                  - toDouble (toDouble (1 / 3) * relY)) / hexRadius);
          r = toDouble (toDouble (toDouble (2 / 3) * relY) / hexRadius)
      in hexRound_double q r)"

definition axialToPixel_double :: "HexPosition \<Rightarrow> real \<Rightarrow> real \<Rightarrow> real \<Rightarrow> real \<times> real" where
  "axialToPixel_double pos hexRadius centerX centerY =
     (let x = toDouble (toDouble (hexRadius
                  * toDouble (toDouble (toDouble (sqrt 3) * of_int (hex_q pos))
                              + toDouble (toDouble (toDouble (sqrt 3) / 2) * of_int (hex_r pos))))
                + centerX);
          y = toDouble (toDouble (hexRadius * toDouble (1.5 * of_int (hex_r pos))) + centerY)
      in (x, y))"

text \<open>
  \<^verbatim>\<open>generateHexGrid\<close>: the two nested \<^verbatim>\<open>for\<close> loops, each a recursive function that
  carries the loop variable and the array built so far.
\<close>

function generateHexGrid_inner ::
  "int \<Rightarrow> int \<Rightarrow> int \<Rightarrow> HexPosition list \<Rightarrow> HexPosition list" where
  "generateHexGrid_inner q r r2 tiles =
     (if r \<le> r2 then generateHexGrid_inner q (r + 1) r2 (tiles @ [HexPosition q r])
      else tiles)"
  by pat_completeness auto
termination
  by (relation "measure (\<lambda>(q, r, r2, tiles). nat (r2 + 1 - r))") auto

function generateHexGrid_outer :: "int \<Rightarrow> int \<Rightarrow> HexPosition list \<Rightarrow> HexPosition list" where
  "generateHexGrid_outer radius q tiles =
     (if q \<le> radius
      then generateHexGrid_outer radius (q + 1)
             (generateHexGrid_inner q (max (- radius) (- q - radius))
                (min radius (- q + radius)) tiles)
      else tiles)"
  by pat_completeness auto
termination
  by (relation "measure (\<lambda>(radius, q, tiles). nat (radius + 1 - q))") auto

declare generateHexGrid_inner.simps [simp del] generateHexGrid_outer.simps [simp del]

definition generateHexGrid :: "int \<Rightarrow> HexPosition list" where
  "generateHexGrid radius = generateHexGrid_outer radius (- radius) []"

definition isWithinGrid :: "HexPosition \<Rightarrow> int \<Rightarrow> bool" where
  "isWithinGrid pos radius =
     (let s = - hex_q pos - hex_r pos
      in \<bar>hex_q pos\<bar> \<le> radius \<and> \<bar>hex_r pos\<bar> \<le> radius \<and> \<bar>s\<bar> \<le> radius)"

text \<open>The cells of one column \<open>q\<close> of the grid (one run of the inner loop).\<close>

definition grid_row :: "int \<Rightarrow> int \<Rightarrow> HexPosition list" where
  "grid_row radius q =
     map (HexPosition q) [max (- radius) (- q - radius)..min radius (- q + radius)]"

subsection \<open>core/config.js\<close>

definition GRID_RADIUS :: int where "GRID_RADIUS = 6"
definition HEX_SIZE :: real where "HEX_SIZE = 40"
definition TILE_FALL_INTERVAL :: int where "TILE_FALL_INTERVAL = 800"
definition TILE_WARNING_DURATION :: int where "TILE_WARNING_DURATION = 600"
definition MIN_FALL_INTERVAL :: int where "MIN_FALL_INTERVAL = 300"
definition FALL_ACCELERATION :: int where "FALL_ACCELERATION = 20"
definition PLAYER_SPEED :: real where "PLAYER_SPEED = 200"

datatype MatchPhase = WaitingToStart | Spawning | InProgress | GameOver

subsection \<open>core/types.js: the event emitter\<close>

text \<open>
  The four notifications of the game, with their payloads: a tile key, a player
  reference, and for \<^verbatim>\<open>gameOver\<close> the winner or \<^verbatim>\<open>null\<close>.
\<close>

datatype Notification =
    TileWarning string
  | TileFallen string
  | PlayerEliminated nat
  | GameOverEvent "nat option"

text \<open>
  \<open>listeners\<close> holds the subscriptions (event name, callback); \<open>emitted\<close> is the trace
  of the calls of \<^verbatim>\<open>emit\<close>, oldest first.
\<close>

record EventEmitter =
  listeners :: "(string \<times> nat) list"
  emitted :: "Notification list"

definition emit :: "Notification \<Rightarrow> EventEmitter \<Rightarrow> EventEmitter" where
  "emit n e = e\<lparr>emitted := emitted e @ [n]\<rparr>"

definition clear :: "EventEmitter \<Rightarrow> EventEmitter" where
  "clear e = e\<lparr>listeners := []\<rparr>"

subsection \<open>The Tile class\<close>

record Tile =
  position :: HexPosition
  isActive :: bool
  warningStartTime :: "real option"
  isShattering :: bool
  shatterStartTime :: real
  shatterDuration :: real

definition Tile_new :: "HexPosition \<Rightarrow> Tile" where
  "Tile_new pos =
     \<lparr>position = pos, isActive = True, warningStartTime = None,
      isShattering = False, shatterStartTime = 0, shatterDuration = 400\<rparr>"

definition isWarning :: "Tile \<Rightarrow> bool" where
  "isWarning tile = (warningStartTime tile \<noteq> None)"

definition startWarning :: "real \<Rightarrow> Tile \<Rightarrow> Tile" where
  "startWarning now tile = tile\<lparr>warningStartTime := Some now\<rparr>"

definition startShatter :: "real \<Rightarrow> Tile \<Rightarrow> Tile" where
  "startShatter now tile =
     tile\<lparr>isShattering := True, shatterStartTime := now, warningStartTime := None\<rparr>"

definition fall :: "Tile \<Rightarrow> Tile" where
  "fall tile = tile\<lparr>isActive := False, isShattering := False, warningStartTime := None\<rparr>"

text \<open>\<^verbatim>\<open>getShatterProgress\<close> returns the progress and the tile as it leaves it.\<close>

definition getShatterProgress :: "real \<Rightarrow> Tile \<Rightarrow> real \<times> Tile" where
  "getShatterProgress now tile =
     (if \<not> isShattering tile then (0, tile)
      else let elapsed = now - shatterStartTime tile;
               progress = min (elapsed / shatterDuration tile) 1
           in (progress, if progress \<ge> 1 then fall tile else tile))"

subsection \<open>The Player class\<close>

record Keys =
  key_up :: string
  key_down :: string
  key_left :: string
  key_right :: string

record Player =
  p_index :: nat
  p_keys :: Keys
  p_x :: real
  p_y :: real
  p_vx :: real
  p_vy :: real
  isFalling :: bool
  fallStartTime :: real
  fallDuration :: real
  isAlive :: bool
  survivalTime :: real

definition Player_new :: "nat \<Rightarrow> Keys \<Rightarrow> real \<Rightarrow> real \<Rightarrow> Player" where
  "Player_new i ks startX startY =
     \<lparr>p_index = i, p_keys = ks, p_x = startX, p_y = startY, p_vx = 0, p_vy = 0,
      isFalling = False, fallStartTime = 0, fallDuration = 800,
      isAlive = True, survivalTime = 0\<rparr>"

definition startFalling :: "real \<Rightarrow> Player \<Rightarrow> Player" where
  "startFalling now player = player\<lparr>isFalling := True, fallStartTime := now\<rparr>"

subsection \<open>The state of the program\<close>

record GameState =
  board :: "(string \<times> Tile) list"
  players :: "nat list"
  alivePlayers :: "nat list"
  matchPhase :: MatchPhase
  gameStartTime :: real
  events :: EventEmitter
  centerX :: real
  centerY :: real

record TileFallManager =
  fallInterval :: int
  pendingFalls :: "(string \<times> nat) list"
  nextFallTimeout :: "nat option"
  isRunning :: bool

text \<open>
  The three closures the program hands to \<^verbatim>\<open>setTimeout\<close>: the scheduler's loop step
  (\<^verbatim>\<open>scheduleNextFall\<close>), the fall of a warned tile (\<^verbatim>\<open>selectRandomTile\<close>) and the
  delayed game-over check (\<^verbatim>\<open>eliminatePlayer\<close>).
\<close>

datatype Callback = NextFall | ExecuteFall string | GameOverCheck

text \<open>
  The world: the \<^verbatim>\<open>GameState\<close>, the \<^verbatim>\<open>TileFallManager\<close>, the keys the
  \<^verbatim>\<open>InputHandler\<close> holds, the store of \<^verbatim>\<open>Player\<close> objects, the clock, and the
  pending timers (handle, due time, callback) with the next handle to hand out.
\<close>

record World =
  gameState :: GameState
  tileFallManager :: TileFallManager
  heldKeys :: "string set"
  playerObjs :: "nat \<Rightarrow> Player"
  clock :: real
  timers :: "(nat \<times> real \<times> Callback) list"
  nextTimerId :: nat

definition setTimeout :: "Callback \<Rightarrow> real \<Rightarrow> World \<Rightarrow> nat \<times> World" where
  "setTimeout cb delay w =
     (nextTimerId w,
      w\<lparr>timers := timers w @ [(nextTimerId w, clock w + delay, cb)],
        nextTimerId := nextTimerId w + 1\<rparr>)"

definition clearTimeout :: "nat \<Rightarrow> World \<Rightarrow> World" where
  "clearTimeout i w = w\<lparr>timers := filter (\<lambda>t. fst t \<noteq> i) (timers w)\<rparr>"

text \<open>Helpers: a mutation of a tile, of a player object, and an emission.\<close>

definition setTile :: "string \<Rightarrow> Tile \<Rightarrow> World \<Rightarrow> World" where
  "setTile posKey tile w =
     w\<lparr>gameState := (gameState w)\<lparr>board := AList.update posKey tile (board (gameState w))\<rparr>\<rparr>"

definition setPlayer :: "nat \<Rightarrow> Player \<Rightarrow> World \<Rightarrow> World" where
  "setPlayer ref player w = w\<lparr>playerObjs := (playerObjs w)(ref := player)\<rparr>"

definition emitEvent :: "Notification \<Rightarrow> World \<Rightarrow> World" where
  "emitEvent n w = w\<lparr>gameState := (gameState w)\<lparr>events := emit n (events (gameState w))\<rparr>\<rparr>"

subsection \<open>The GameState class\<close>

definition GameState_new :: GameState where
  "GameState_new =
     \<lparr>board = [], players = [], alivePlayers = [], matchPhase = WaitingToStart,
      gameStartTime = 0, events = \<lparr>listeners = [], emitted = []\<rparr>,
      centerX = 0, centerY = 0\<rparr>"

text \<open>The key of the hex under a pixel, as \<^verbatim>\<open>pixelToAxial(...).toKey()\<close> computes it.\<close>

definition pixelKey :: "real \<Rightarrow> real \<Rightarrow> World \<Rightarrow> string" where
  "pixelKey x y w =
     toKey (pixelToAxial x y HEX_SIZE (centerX (gameState w)) (centerY (gameState w)))"

definition getPlayerCurrentTile :: "nat \<Rightarrow> World \<Rightarrow> Tile option" where
  "getPlayerCurrentTile ref w =
     map_of (board (gameState w)) (pixelKey (p_x (playerObjs w ref)) (p_y (playerObjs w ref)) w)"

definition isTileActive :: "real \<Rightarrow> real \<Rightarrow> World \<Rightarrow> bool" where
  "isTileActive x y w =
     (case map_of (board (gameState w)) (pixelKey x y w) of
        None \<Rightarrow> False
      | Some tile \<Rightarrow> isActive tile)"

definition markTileWarning :: "string \<Rightarrow> World \<Rightarrow> World" where
  "markTileWarning posKey w =
     (case map_of (board (gameState w)) posKey of
        None \<Rightarrow> w
      | Some tile \<Rightarrow>
          if isActive tile
          then emitEvent (TileWarning posKey) (setTile posKey (startWarning (clock w) tile) w)
          else w)"

definition removeTile :: "string \<Rightarrow> World \<Rightarrow> World" where
  "removeTile posKey w =
     (case map_of (board (gameState w)) posKey of
        None \<Rightarrow> w
      | Some tile \<Rightarrow>
          emitEvent (TileFallen posKey) (setTile posKey (startShatter (clock w) tile) w))"

text \<open>
  The arrow function \<^verbatim>\<open>eliminatePlayer\<close> schedules: it reads the roster and the phase
  when it runs, not when it was scheduled.
\<close>

definition gameOverCheck :: "World \<Rightarrow> World" where
  "gameOverCheck w =
     (if length (alivePlayers (gameState w)) \<le> 1 \<and> matchPhase (gameState w) = InProgress
      then emitEvent
             (GameOverEvent (case alivePlayers (gameState w) of [] \<Rightarrow> None | p # _ \<Rightarrow> Some p))
             (w\<lparr>gameState := (gameState w)\<lparr>matchPhase := GameOver\<rparr>\<rparr>)
      else w)"

definition eliminatePlayer :: "nat \<Rightarrow> World \<Rightarrow> World" where
  "eliminatePlayer ref w =
     (let w1 = setPlayer ref
                 ((playerObjs w ref)
                    \<lparr>isAlive := False,
                     survivalTime := clock w - gameStartTime (gameState w)\<rparr>) w;
          w2 = w1\<lparr>gameState := (gameState w1)
                     \<lparr>alivePlayers := filter (\<lambda>p. p \<noteq> ref) (alivePlayers (gameState w1))\<rparr>\<rparr>;
          w3 = emitEvent (PlayerEliminated ref) w2
      in if length (alivePlayers (gameState w3)) \<le> 1
         then snd (setTimeout GameOverCheck (fallDuration (playerObjs w3 ref)) w3)
         else w3)"

definition checkPlayersOnTile :: "string \<Rightarrow> World \<Rightarrow> nat list" where
  "checkPlayersOnTile posKey w =
     (case map_of (board (gameState w)) posKey of
        None \<Rightarrow> []
      | Some tile \<Rightarrow>
          filter (\<lambda>ref. pixelKey (p_x (playerObjs w ref)) (p_y (playerObjs w ref)) w = posKey)
            (alivePlayers (gameState w)))"

definition reset :: "World \<Rightarrow> World" where
  "reset w =
     w\<lparr>gameState := (gameState w)
          \<lparr>board := [], players := [], alivePlayers := [], matchPhase := WaitingToStart,
           gameStartTime := 0, events := clear (events (gameState w))\<rparr>\<rparr>"

subsection \<open>game/TileFallManager.js\<close>

definition TileFallManager_new :: TileFallManager where
  "TileFallManager_new =
     \<lparr>fallInterval = TILE_FALL_INTERVAL, pendingFalls = [], nextFallTimeout = None,
      isRunning = False\<rparr>"

definition scheduleNextFall :: "World \<Rightarrow> World" where
  "scheduleNextFall w =
     (if \<not> isRunning (tileFallManager w) then w
      else let (timeoutId, w1) = setTimeout NextFall (of_int (fallInterval (tileFallManager w))) w
           in w1\<lparr>tileFallManager := (tileFallManager w1)\<lparr>nextFallTimeout := Some timeoutId\<rparr>\<rparr>)"

definition start :: "World \<Rightarrow> World" where
  "start w =
     scheduleNextFall
       (w\<lparr>tileFallManager := (tileFallManager w)
            \<lparr>isRunning := True, fallInterval := TILE_FALL_INTERVAL\<rparr>\<rparr>)"

text \<open>
  \<^verbatim>\<open>stop\<close>. The test \<^verbatim>\<open>if (this.nextFallTimeout)\<close> is false for \<^verbatim>\<open>null\<close> and for the
  handle \<open>0\<close>; \<^verbatim>\<open>pendingFalls.forEach\<close> visits the handles in insertion order.
\<close>

definition stop :: "World \<Rightarrow> World" where
  "stop w =
     (let w1 = w\<lparr>tileFallManager := (tileFallManager w)\<lparr>isRunning := False\<rparr>\<rparr>;
          w2 = (case nextFallTimeout (tileFallManager w1) of
                  None \<Rightarrow> w1
                | Some timeoutId \<Rightarrow>
                    if timeoutId = 0 then w1
                    else (clearTimeout timeoutId w1)
                           \<lparr>tileFallManager := (tileFallManager w1)\<lparr>nextFallTimeout := None\<rparr>\<rparr>);
          w3 = fold clearTimeout (map snd (pendingFalls (tileFallManager w2))) w2
      in w3\<lparr>tileFallManager := (tileFallManager w3)\<lparr>pendingFalls := []\<rparr>\<rparr>)"

text \<open>
  The two arrays \<^verbatim>\<open>selectRandomTile\<close> collects while it iterates over the board, in
  the board's order.
\<close>

definition activeTiles :: "World \<Rightarrow> string list" where
  "activeTiles w =
     map fst (filter (\<lambda>(posKey, tile). isActive tile \<and> \<not> isWarning tile) (board (gameState w)))"

definition tilesWithPlayers :: "World \<Rightarrow> string list" where
  "tilesWithPlayers w =
     filter (\<lambda>posKey. length (checkPlayersOnTile posKey w) > 0) (activeTiles w)"

text \<open>
  \<^verbatim>\<open>Math.floor(Math.random() * n)\<close> for the draw \<open>u\<close>: the floor of the product as the
  program computes it, rounded to a double. \<^verbatim>\<open>Math.random()\<close> returns a double in
  \<open>[0, 1)\<close>, which keeps the index below \<open>n\<close>; what is proved about the selected key is
  proved for such draws.
\<close>

definition randomIndex :: "real \<Rightarrow> nat \<Rightarrow> nat" where
  "randomIndex u n = nat \<lfloor>toDouble (u * real n)\<rfloor>"

text \<open>
  The key \<^verbatim>\<open>selectRandomTile\<close> picks: \<open>chance\<close> is the draw compared with \<open>0.2\<close> (made
  only when a candidate is occupied), \<open>pick\<close> the draw that gives the index.
\<close>

definition selectedKey :: "real \<Rightarrow> real \<Rightarrow> World \<Rightarrow> string" where
  "selectedKey chance pick w =
     (if length (tilesWithPlayers w) > 0 \<and> chance < 0.2
      then tilesWithPlayers w ! randomIndex pick (length (tilesWithPlayers w))
      else activeTiles w ! randomIndex pick (length (activeTiles w)))"

definition selectRandomTile :: "real \<Rightarrow> real \<Rightarrow> World \<Rightarrow> World" where
  "selectRandomTile chance pick w =
     (if length (activeTiles w) = 0 then w
      else let posKey = selectedKey chance pick w;
               w1 = markTileWarning posKey w;
               (timeoutId, w2) = setTimeout (ExecuteFall posKey) (of_int TILE_WARNING_DURATION) w1
           in w2\<lparr>tileFallManager := (tileFallManager w2)
                   \<lparr>pendingFalls := AList.update posKey timeoutId
                                      (pendingFalls (tileFallManager w2))\<rparr>\<rparr>)"

definition executeFall :: "string \<Rightarrow> World \<Rightarrow> World" where
  "executeFall posKey w =
     (let w1 = w\<lparr>tileFallManager := (tileFallManager w)
                   \<lparr>pendingFalls := AList.delete posKey (pendingFalls (tileFallManager w))\<rparr>\<rparr>;
          playersOnTile = checkPlayersOnTile posKey w1;
          w2 = fold (\<lambda>ref v. eliminatePlayer ref
                                (setPlayer ref (startFalling (clock v) (playerObjs v ref)) v))
                 playersOnTile w1
      in removeTile posKey w2)"

definition accelerateFallRate :: "World \<Rightarrow> World" where
  "accelerateFallRate w =
     w\<lparr>tileFallManager := (tileFallManager w)
          \<lparr>fallInterval := max MIN_FALL_INTERVAL
                              (fallInterval (tileFallManager w) - FALL_ACCELERATION)\<rparr>\<rparr>"

text \<open>The arrow function \<^verbatim>\<open>scheduleNextFall\<close> schedules: one cycle of the scheduler.\<close>

definition nextFallCallback :: "real \<Rightarrow> real \<Rightarrow> World \<Rightarrow> World" where
  "nextFallCallback chance pick w =
     scheduleNextFall (accelerateFallRate (selectRandomTile chance pick w))"

subsection \<open>game/InputHandler.js\<close>

text \<open>The input direction along one axis: the two keys cancel each other.\<close>

definition inputAxis :: "string \<Rightarrow> string \<Rightarrow> string set \<Rightarrow> real" where
  "inputAxis negKey posKey held =
     (if negKey \<in> held then - 1 else 0) + (if posKey \<in> held then 1 else 0)"

text \<open>One component of the velocity after acceleration or deceleration.\<close>

definition accelerate :: "real \<Rightarrow> real \<Rightarrow> real \<Rightarrow> real" where
  "accelerate v input dt =
     (if input \<noteq> 0 then v + input * 1200 * dt
      else if v > 0 then max 0 (v - 800 * dt)
      else if v < 0 then min 0 (v + 800 * dt)
      else v)"

text \<open>The velocity \<^verbatim>\<open>updatePlayerMovement\<close> stores, clamped to the maximum speed.\<close>

definition newVelocity :: "Player \<Rightarrow> string set \<Rightarrow> real \<Rightarrow> real \<times> real" where
  "newVelocity player held deltaTime =
     (let inputX0 = inputAxis (key_left (p_keys player)) (key_right (p_keys player)) held;
          inputY0 = inputAxis (key_up (p_keys player)) (key_down (p_keys player)) held;
          inputX = (if inputX0 \<noteq> 0 \<and> inputY0 \<noteq> 0 then inputX0 * 0.707 else inputX0);
          inputY = (if inputX0 \<noteq> 0 \<and> inputY0 \<noteq> 0 then inputY0 * 0.707 else inputY0);
          maxSpeed = PLAYER_SPEED;
          dt = deltaTime / 1000;
          vx = accelerate (p_vx player) inputX dt;
          vy = accelerate (p_vy player) inputY dt;
          speed = sqrt (vx * vx + vy * vy)
      in if speed > maxSpeed then (vx / speed * maxSpeed, vy / speed * maxSpeed) else (vx, vy))"

text \<open>The candidate position: the position plus the new velocity times the elapsed time.\<close>

definition candidate :: "Player \<Rightarrow> string set \<Rightarrow> real \<Rightarrow> real \<times> real" where
  "candidate player held deltaTime =
     (let (vx, vy) = newVelocity player held deltaTime;
          dt = deltaTime / 1000
      in (p_x player + vx * dt, p_y player + vy * dt))"

definition updatePlayerMovement :: "nat \<Rightarrow> real \<Rightarrow> World \<Rightarrow> World" where
  "updatePlayerMovement ref deltaTime w =
     (let player = playerObjs w ref
      in if isFalling player then w
         else let (vx, vy) = newVelocity player (heldKeys w) deltaTime;
                  (newX, newY) = candidate player (heldKeys w) deltaTime;
                  w1 = setPlayer ref (player\<lparr>p_vx := vx, p_vy := vy\<rparr>) w
              in if \<not> isTileActive newX newY w1
                 then eliminatePlayer ref
                        (setPlayer ref (startFalling (clock w1) (playerObjs w1 ref)) w1)
                 else setPlayer ref ((playerObjs w1 ref)\<lparr>p_x := newX, p_y := newY\<rparr>) w1)"

text \<open>
  \<^verbatim>\<open>updatePlayers\<close>: the \<^verbatim>\<open>for ... of\<close> loop runs over the array \<^verbatim>\<open>alivePlayers\<close>
  referred to when the loop starts; \<^verbatim>\<open>eliminatePlayer\<close> replaces the field by a new
  array and leaves that one as it was.
\<close>

definition updatePlayers :: "real \<Rightarrow> World \<Rightarrow> World" where
  "updatePlayers deltaTime w =
     (if matchPhase (gameState w) \<noteq> InProgress then w
      else fold (\<lambda>ref v. updatePlayerMovement ref deltaTime v) (alivePlayers (gameState w)) w)"

subsection \<open>game/GameMode.js: what the controller does to the core\<close>

text \<open>
  \<^verbatim>\<open>updateTileAnimations\<close> asks every shattering tile for its progress, which lets the
  tile fall once its animation is over.
\<close>

definition updateTileAnimations :: "World \<Rightarrow> World" where
  "updateTileAnimations w =
     w\<lparr>gameState := (gameState w)
          \<lparr>board := map (\<lambda>(posKey, tile).
                           (posKey, if isShattering tile
                                    then snd (getShatterProgress (clock w) tile) else tile))
                      (board (gameState w))\<rparr>\<rparr>"

definition update :: "real \<Rightarrow> World \<Rightarrow> World" where
  "update deltaTime w =
     updateTileAnimations
       (if matchPhase (gameState w) = InProgress then updatePlayers deltaTime w else w)"

definition startGame :: "World \<Rightarrow> World" where
  "startGame w =
     start (w\<lparr>gameState := (gameState w)
                 \<lparr>matchPhase := InProgress, gameStartTime := clock w\<rparr>\<rparr>)"

text \<open>Running a timer's callback; the draws are those of \<^verbatim>\<open>selectRandomTile\<close>.\<close>

fun runCallback :: "Callback \<Rightarrow> real \<Rightarrow> real \<Rightarrow> World \<Rightarrow> World" where
  "runCallback NextFall chance pick w = nextFallCallback chance pick w"
| "runCallback (ExecuteFall posKey) chance pick w = executeFall posKey w"
| "runCallback GameOverCheck chance pick w = gameOverCheck w"

text \<open>
  The timer \<open>t\<close> fires: it leaves the queue, the clock has reached its due time, and
  its callback runs.
\<close>

definition fire :: "nat \<times> real \<times> Callback \<Rightarrow> real \<Rightarrow> real \<Rightarrow> World \<Rightarrow> World" where
  "fire t chance pick w =
     runCallback (snd (snd t)) chance pick
       (w\<lparr>timers := filter (\<lambda>t'. fst t' \<noteq> fst t) (timers w),
          clock := max (clock w) (fst (snd t))\<rparr>)"

text \<open>
  A run of scheduler cycles, one pair of draws per cycle, with nothing else happening
  in between.
\<close>

definition runCycles :: "(real \<times> real) list \<Rightarrow> World \<Rightarrow> World" where
  "runCycles draws w = fold (\<lambda>(chance, pick) v. nextFallCallback chance pick v) draws w"

subsection \<open>The events of a run\<close>

text \<open>
  One event of the program, as the browser's event loop serialises them: time passes;
  a pending timer fires, with two doubles of \<open>[0, 1)\<close> for the draws its callback may
  make; a frame is drawn (\<^verbatim>\<open>GameMode.update\<close>); a key goes down or up;
  the controller starts the match (\<^verbatim>\<open>startGame\<close>); the controller stops the scheduler
  (\<^verbatim>\<open>handleGameOver\<close>); the controller resets the game state (\<^verbatim>\<open>restart\<close>).
  \<^verbatim>\<open>GameMode\<close> calls \<^verbatim>\<open>startGame\<close> once for each scheduler it constructs, when the spawn
  animations are over, and so never on a scheduler that is running.
\<close>

inductive step :: "World \<Rightarrow> World \<Rightarrow> bool" where
  passTime: "clock w \<le> now \<Longrightarrow> step w (w\<lparr>clock := now\<rparr>)"
| timerFires:
    "t \<in> set (timers w) \<Longrightarrow> 0 \<le> chance \<Longrightarrow> chance < 1 \<Longrightarrow> 0 \<le> pick \<Longrightarrow> pick < 1 \<Longrightarrow>
       isDouble chance \<Longrightarrow> isDouble pick \<Longrightarrow> step w (fire t chance pick w)"
| frame: "0 \<le> deltaTime \<Longrightarrow> step w (update deltaTime w)"
| keyEvent: "step w (w\<lparr>heldKeys := held\<rparr>)"
| gameStarts: "\<not> isRunning (tileFallManager w) \<Longrightarrow> step w (startGame w)"
| schedulerStops: "step w (stop w)"
| restart: "step w (reset w)"

text \<open>Time advancing on its own: the clock moves and pending timers fire.\<close>

inductive advance :: "World \<Rightarrow> World \<Rightarrow> bool" where
  clockMoves: "clock w \<le> now \<Longrightarrow> advance w (w\<lparr>clock := now\<rparr>)"
| timerRuns:
    "t \<in> set (timers w) \<Longrightarrow> 0 \<le> chance \<Longrightarrow> chance < 1 \<Longrightarrow> 0 \<le> pick \<Longrightarrow> pick < 1 \<Longrightarrow>
       isDouble chance \<Longrightarrow> isDouble pick \<Longrightarrow> advance w (fire t chance pick w)"

text \<open>
  The states of a run: it begins with a scheduler as its constructor leaves it, no
  timer pending, and a board whose keys are distinct, as the keys of a \<^verbatim>\<open>Map\<close> are.
\<close>

definition fresh :: "World \<Rightarrow> bool" where
  "fresh w \<longleftrightarrow>
     tileFallManager w = TileFallManager_new \<and> timers w = [] \<and> 0 < nextTimerId w
     \<and> distinct (map fst (board (gameState w)))"

definition reachable :: "World \<Rightarrow> bool" where
  "reachable w \<longleftrightarrow> (\<exists>w0. fresh w0 \<and> step\<^sup>*\<^sup>* w0 w)"

text \<open>
  The scheduler's bookkeeping covers its pending timers: the pending loop timer is the
  one \<open>nextFallTimeout\<close> names, and the pending fall of a tile is the one
  \<open>pendingFalls\<close> names for a key that is not a candidate at present. Timer handles are
  positive and below the next handle, as the handles \<^verbatim>\<open>setTimeout\<close> returns are.
\<close>

definition tracked :: "World \<Rightarrow> bool" where
  "tracked w \<longleftrightarrow>
     0 < nextTimerId w
     \<and> distinct (map fst (board (gameState w)))
     \<and> (\<forall>t \<in> set (timers w). 0 < fst t \<and> fst t < nextTimerId w)
     \<and> (\<forall>t \<in> set (timers w).
          snd (snd t) = NextFall \<longrightarrow>
            isRunning (tileFallManager w)
            \<and> nextFallTimeout (tileFallManager w) = Some (fst t))
     \<and> (\<forall>t \<in> set (timers w). \<forall>posKey.
          snd (snd t) = ExecuteFall posKey \<longrightarrow>
            map_of (pendingFalls (tileFallManager w)) posKey = Some (fst t)
            \<and> posKey \<notin> set (activeTiles w))
     \<and> nextFallTimeout (tileFallManager w) \<noteq> Some 0"

text \<open>
  The scheduler is stopped and has nothing pending: its bookkeeping is empty and the
  only timers left are delayed game-over checks.
\<close>

definition stopped :: "World \<Rightarrow> bool" where
  "stopped w \<longleftrightarrow>
     \<not> isRunning (tileFallManager w)
     \<and> nextFallTimeout (tileFallManager w) = None
     \<and> pendingFalls (tileFallManager w) = []
     \<and> (\<forall>t \<in> set (timers w). snd (snd t) = GameOverCheck)"

text \<open>The notifications about tiles in the trace of emitted notifications.\<close>

definition tileNotifications :: "World \<Rightarrow> Notification list" where
  "tileNotifications w =
     filter (\<lambda>n. case n of TileWarning posKey \<Rightarrow> True | TileFallen posKey \<Rightarrow> True
                  | PlayerEliminated ref \<Rightarrow> False | GameOverEvent winner \<Rightarrow> False)
       (emitted (events (gameState w)))"

text \<open>
  The program going on while its controller neither starts the scheduler nor resets
  the game: time advances, frames are drawn, keys go down and up.
\<close>

inductive continues :: "World \<Rightarrow> World \<Rightarrow> bool" where
  timeAdvances: "advance w v \<Longrightarrow> continues w v"
| frameDrawn: "0 \<le> deltaTime \<Longrightarrow> continues w (update deltaTime w)"
| keyChanges: "continues w (w\<lparr>heldKeys := held\<rparr>)"

text \<open>
  Two boards with the same keys in the same order, where each tile of the second is
  the tile of the first or that tile after \<^verbatim>\<open>fall()\<close>.
\<close>

definition onlyFallen :: "(string \<times> Tile) list \<Rightarrow> (string \<times> Tile) list \<Rightarrow> bool" where
  "onlyFallen old new \<longleftrightarrow>
     list_all2 (\<lambda>a b. fst b = fst a \<and> (snd b = snd a \<or> snd b = fall (snd a))) old new"

subsection \<open>Example states\<close>

text \<open>
  A match in progress at time 1000 with two tiles and two players: tile \<open>0,0\<close> is
  active, tile \<open>0,1\<close> has fallen; player 0 stands on the pixel \<open>(0, 0)\<close>, over tile
  \<open>0,0\<close>, and player 1 on the pixel \<open>(0, 60)\<close>, over tile \<open>0,1\<close>. No key is held.
\<close>

definition exampleKeys :: Keys where
  "exampleKeys =
     \<lparr>key_up = ''KeyW'', key_down = ''KeyS'', key_left = ''KeyA'', key_right = ''KeyD''\<rparr>"

definition exampleBoard :: "(string \<times> Tile) list" where
  "exampleBoard =
     [(''0,0'', Tile_new (HexPosition 0 0)), (''0,1'', fall (Tile_new (HexPosition 0 1)))]"

definition exampleWorld :: World where
  "exampleWorld =
     \<lparr>gameState =
        \<lparr>board = exampleBoard, players = [0, 1], alivePlayers = [0, 1],
         matchPhase = InProgress, gameStartTime = 0,
         events = \<lparr>listeners = [], emitted = []\<rparr>, centerX = 0, centerY = 0\<rparr>,
      tileFallManager = TileFallManager_new,
      heldKeys = {},
      playerObjs = (\<lambda>i. Player_new i exampleKeys 0 (if i = 1 then 60 else 0)),
      clock = 1000,
      timers = [],
      nextTimerId = 1\<rparr>"

text \<open>
  The example state sixteen milliseconds after player 0, and then also player 1, was
  eliminated in it.
\<close>

definition exampleEliminated :: World where
  "exampleEliminated = (eliminatePlayer 0 exampleWorld)\<lparr>clock := 1016\<rparr>"

definition exampleDraw :: World where
  "exampleDraw = eliminatePlayer 1 exampleEliminated"

text \<open>
  The example state with a board of four tiles: \<open>0,-1\<close>, \<open>0,0\<close> and \<open>0,1\<close> are active
  and not warning, \<open>1,0\<close> is warning since time 900. Player 0 is over \<open>0,0\<close> and player 1
  over \<open>0,1\<close>.
\<close>

definition exampleSelect :: World where
  "exampleSelect =
     exampleWorld\<lparr>gameState := (gameState exampleWorld)
       \<lparr>board := [(''0,-1'', Tile_new (HexPosition 0 (- 1))),
                  (''0,0'', Tile_new (HexPosition 0 0)),
                  (''0,1'', Tile_new (HexPosition 0 1)),
                  (''1,0'', startWarning 900 (Tile_new (HexPosition 1 0)))]\<rparr>\<rparr>"

text \<open>
  The four-tile example after the controller has started the match and the scheduler's
  first cycle has run at time 1800, with the draws \<open>0.125\<close> and \<open>0.5\<close>.
\<close>

definition exampleRunning :: World where
  "exampleRunning = fire (1, 1800, NextFall) (1 / 8) (1 / 2) (startGame exampleSelect)"

text \<open>
  The two-tile and the four-tile example with player 0 on the move: it stands on the
  pixel \<open>(0, 0)\<close> and moves down at 200 pixels per second, with its down key held. After
  a frame of 250 milliseconds its candidate position is the pixel \<open>(0, 50)\<close>, over tile
  \<open>0,1\<close>, which has fallen in the first state and is active in the second.
\<close>

definition exampleMoving :: World where
  "exampleMoving =
     exampleWorld\<lparr>heldKeys := {''KeyS''},
                    playerObjs := (playerObjs exampleWorld)
                                    (0 := (playerObjs exampleWorld 0)\<lparr>p_vy := 200\<rparr>)\<rparr>"

definition exampleMovingOn :: World where
  "exampleMovingOn =
     exampleSelect\<lparr>heldKeys := {''KeyS''},
                     playerObjs := (playerObjs exampleSelect)
                                     (0 := (playerObjs exampleSelect 0)\<lparr>p_vy := 200\<rparr>)\<rparr>"

section \<open>Rounding to a double\<close>

text \<open>
  What the theorems about rounded operations need of \<open>toDouble\<close>: how it is evaluated
  once the binary exponent of its argument is known, how far it is from its argument,
  and which numbers it leaves as they are.
\<close>

lemma round_even_err: "\<bar>of_int (round_even v) - v\<bar> \<le> 1 / 2"
  unfolding round_even_def Let_def by (auto; linarith)

lemma round_even_int: "round_even (of_int k) = k"
  by (simp add: round_even_def)

lemma round_even_ge:
  assumes "of_int k \<le> v"
  shows "k \<le> round_even v"
proof -
  have "k \<le> \<lfloor>v\<rfloor>"
    using assms by (simp add: le_floor_iff)
  moreover have "\<lfloor>v\<rfloor> \<le> round_even v"
    by (simp add: round_even_def Let_def)
  ultimately show ?thesis
    by simp
qed

lemma round_even_le:
  assumes "v \<le> of_int k"
  shows "round_even v \<le> k"
proof (cases "v = of_int k")
  case True
  then show ?thesis
    by (simp add: round_even_int)
next
  case False
  then have "v < of_int k"
    using assms by simp
  then have "\<lfloor>v\<rfloor> < k"
    by (simp add: floor_less_iff)
  moreover have "round_even v \<le> \<lfloor>v\<rfloor> + 1"
    by (simp add: round_even_def Let_def)
  ultimately show ?thesis
    by simp
qed

lemma binade:
  assumes "v \<noteq> 0"
  shows "2 powi \<lfloor>log 2 \<bar>v\<bar>\<rfloor> \<le> \<bar>v\<bar> \<and> \<bar>v\<bar> < 2 powi (\<lfloor>log 2 \<bar>v\<bar>\<rfloor> + 1)"
proof -
  have pos: "0 < \<bar>v\<bar>"
    using assms by simp
  have "2 powr real_of_int \<lfloor>log 2 \<bar>v\<bar>\<rfloor> \<le> \<bar>v\<bar>
      \<and> \<bar>v\<bar> < 2 powr real_of_int (\<lfloor>log 2 \<bar>v\<bar>\<rfloor> + 1)"
    using floor_log_eq_powr_iff [OF pos, of 2 "\<lfloor>log 2 \<bar>v\<bar>\<rfloor>"] by simp
  then show ?thesis
    by (simp only: powr_real_of_int' [of 2, simplified])
qed

lemma exponent_less:
  assumes "2 powi a \<le> (x::real)" and "x < 2 powi b"
  shows "a < b"
proof (rule ccontr)
  assume "\<not> a < b"
  then have "(2::real) powi b \<le> 2 powi a"
    by (intro power_int_increasing) simp_all
  then show False
    using assms by linarith
qed

lemma floor_log_eq:
  assumes "2 powi k \<le> \<bar>v\<bar>" and "\<bar>v\<bar> < 2 powi (k + 1)"
  shows "\<lfloor>log 2 \<bar>v\<bar>\<rfloor> = k"
proof -
  have "0 < (2::real) powi k"
    by simp
  then have "0 < \<bar>v\<bar>"
    using assms(1) by linarith
  then have "v \<noteq> 0"
    by simp
  note b = binade [OF this]
  have "\<lfloor>log 2 \<bar>v\<bar>\<rfloor> < k + 1"
    using b assms(2) by (intro exponent_less [of _ "\<bar>v\<bar>"]) simp_all
  moreover have "k < \<lfloor>log 2 \<bar>v\<bar>\<rfloor> + 1"
    using b assms(1) by (intro exponent_less [of _ "\<bar>v\<bar>"]) simp_all
  ultimately show ?thesis
    by simp
qed

lemma toDouble_eval:
  assumes "2 powi k \<le> \<bar>v\<bar>" and "\<bar>v\<bar> < 2 powi (k + 1)"
  shows "toDouble v
       = of_int (round_even (v / 2 powi max (k - 52) (- 1074))) * 2 powi max (k - 52) (- 1074)"
proof -
  have "0 < (2::real) powi k"
    by simp
  then have "0 < \<bar>v\<bar>"
    using assms(1) by linarith
  then have "v \<noteq> 0"
    by simp
  then show ?thesis
    by (simp add: toDouble_def ulp_exponent_def floor_log_eq [OF assms])
qed

lemma toDouble_err_ulp: "\<bar>toDouble v - v\<bar> \<le> 2 powi ulp_exponent v / 2"
proof (cases "v = 0")
  case True
  then show ?thesis
    by (simp add: toDouble_def)
next
  case False
  define p :: real where "p = 2 powi ulp_exponent v"
  have p: "0 < p"
    by (simp add: p_def)
  have "toDouble v - v = (of_int (round_even (v / p)) - v / p) * p"
    using False p by (simp add: toDouble_def p_def field_simps)
  then have "\<bar>toDouble v - v\<bar> = \<bar>of_int (round_even (v / p)) - v / p\<bar> * p"
    using p by (simp add: abs_mult)
  also have "\<dots> \<le> 1 / 2 * p"
    using p round_even_err [of "v / p"] by (intro mult_right_mono) simp_all
  finally show ?thesis
    by (simp add: p_def)
qed

lemma toDouble_err: "\<bar>toDouble v - v\<bar> \<le> \<bar>v\<bar> / 2 ^ 53 + 1 / 2 ^ 1075"
proof (cases "v = 0")
  case True
  then show ?thesis
    by (simp add: toDouble_def)
next
  case False
  define l where "l = \<lfloor>log 2 \<bar>v\<bar>\<rfloor>"
  have low: "2 powi l \<le> \<bar>v\<bar>"
    using binade [OF False] by (simp add: l_def)
  show ?thesis
  proof (cases "- 1074 \<le> l - 52")
    case True
    then have "ulp_exponent v = l - 52"
      by (simp add: ulp_exponent_def l_def)
    then have "\<bar>toDouble v - v\<bar> \<le> 2 powi (l - 52) / 2"
      using toDouble_err_ulp [of v] by simp
    also have "(2::real) powi (l - 52) / 2 = 2 powi l / 2 ^ 53"
      by (simp add: power_int_diff)
    also have "\<dots> \<le> \<bar>v\<bar> / 2 ^ 53"
      using low by (simp add: divide_right_mono)
    finally show ?thesis
      by simp
  next
    case False
    then have "ulp_exponent v = - 1074"
      by (simp add: ulp_exponent_def l_def)
    then have "\<bar>toDouble v - v\<bar> \<le> 2 powi (- 1074) / 2"
      using toDouble_err_ulp [of v] by simp
    also have "(2::real) powi (- 1074) / 2 = 1 / 2 ^ 1075"
      by simp
    finally show ?thesis
      by (smt (verit) divide_nonneg_pos abs_ge_zero zero_less_power)
  qed
qed

lemma toDouble_zero: "toDouble 0 = 0"
  by (simp add: toDouble_def)

lemma toDouble_nonneg:
  assumes "0 \<le> v"
  shows "0 \<le> toDouble v"
proof (cases "v = 0")
  case True
  then show ?thesis by (simp add: toDouble_def)
next
  case False
  have "0 \<le> v / 2 powi ulp_exponent v"
    using assms by simp
  then have "0 \<le> round_even (v / 2 powi ulp_exponent v)"
    using round_even_ge [of 0] by simp
  then show ?thesis
    using False by (simp add: toDouble_def)
qed

lemma toDouble_less:
  assumes "0 \<le> v" and "v \<le> c * (1 - 1 / 2 ^ 53)" and "1 \<le> c"
  shows "toDouble v < c"
proof -
  have "toDouble v \<le> v + (v / 2 ^ 53 + 1 / 2 ^ 1075)"
    using toDouble_err [of v] assms(1) by simp
  also have "\<dots> = v * (1 + 1 / 2 ^ 53) + 1 / 2 ^ 1075"
    by (simp add: algebra_simps)
  also have "\<dots> \<le> c * (1 - 1 / 2 ^ 53) * (1 + 1 / 2 ^ 53) + 1 / 2 ^ 1075"
    using assms(2) by (simp add: mult_right_mono)
  also have "\<dots> = c - (c / 2 ^ 106 - 1 / 2 ^ 1075)"
    by (simp add: algebra_simps)
  also have "\<dots> < c"
  proof -
    have "(1::real) / 2 ^ 1075 < 1 / 2 ^ 106"
      by simp
    also have "\<dots> \<le> c / 2 ^ 106"
      using assms(3) by (simp add: divide_right_mono)
    finally show ?thesis
      by simp
  qed
  finally show ?thesis .
qed

lemma ulp_exponent_small:
  assumes "v \<noteq> 0" and "\<bar>v\<bar> < 2 ^ 53"
  shows "ulp_exponent v \<le> 0"
proof -
  have "\<bar>v\<bar> < 2 powi 53"
    using assms(2) by simp
  then have "\<lfloor>log 2 \<bar>v\<bar>\<rfloor> < 53"
    using binade [OF assms(1)] by (intro exponent_less [of _ "\<bar>v\<bar>"]) simp_all
  then show ?thesis
    by (simp add: ulp_exponent_def)
qed

lemma toDouble_ge_int:
  assumes "of_int k \<le> v" and "\<bar>v\<bar> < 2 ^ 53"
  shows "of_int k \<le> toDouble v"
proof (cases "v = 0")
  case True
  then show ?thesis
    using assms(1) by (simp add: toDouble_def)
next
  case False
  define e where "e = ulp_exponent v"
  have e: "e \<le> 0"
    using ulp_exponent_small [OF False assms(2)] by (simp add: e_def)
  define p :: real where "p = 2 powi e"
  have p: "0 < p" "1 / p = 2 ^ nat (- e)"
    using e by (simp_all add: p_def power_int_def field_simps)
  have "of_int (k * 2 ^ nat (- e)) = of_int k / p"
    using p by (simp add: field_simps)
  also have "\<dots> \<le> v / p"
    using assms(1) p(1) by (simp add: divide_right_mono)
  finally have "k * 2 ^ nat (- e) \<le> round_even (v / p)"
    by (rule round_even_ge)
  then have "of_int (k * 2 ^ nat (- e)) \<le> (of_int (round_even (v / p)) :: real)"
    by (simp only: of_int_le_iff)
  then have "of_int (k * 2 ^ nat (- e)) * p \<le> of_int (round_even (v / p)) * p"
    using p(1) by (intro mult_right_mono) simp_all
  moreover have "of_int (k * 2 ^ nat (- e)) * p = of_int k"
    using p by (simp add: field_simps)
  moreover have "toDouble v = of_int (round_even (v / p)) * p"
    using False by (simp add: toDouble_def p_def e_def)
  ultimately show ?thesis
    by linarith
qed

lemma toDouble_rep:
  assumes "\<bar>m\<bar> < 2 ^ 53" and "- 1074 \<le> j"
  shows "toDouble (of_int m * 2 powi j) = of_int m * 2 powi j"
proof (cases "m = 0")
  case True
  then show ?thesis
    by (simp add: toDouble_def)
next
  case False
  define v :: real where "v = of_int m * 2 powi j"
  have v: "v \<noteq> 0"
    using False by (simp add: v_def)
  define e where "e = ulp_exponent v"
  have "\<bar>v\<bar> = of_int \<bar>m\<bar> * 2 powi j"
    by (simp add: v_def abs_mult)
  also have "\<dots> < 2 ^ 53 * 2 powi j"
    using assms(1) by (intro mult_strict_right_mono) (simp_all flip: of_int_less_iff)
  also have "\<dots> = 2 powi (53 + j)"
    by (simp add: power_int_add)
  finally have "\<lfloor>log 2 \<bar>v\<bar>\<rfloor> < 53 + j"
    using binade [OF v] by (intro exponent_less [of _ "\<bar>v\<bar>"]) simp_all
  then have e: "e \<le> j"
    using assms(2) by (simp add: e_def ulp_exponent_def)
  have "v / 2 powi e = of_int m * 2 powi (j - e)"
    by (simp add: v_def power_int_diff)
  also have "\<dots> = of_int (m * 2 ^ nat (j - e))"
    using e by (simp add: power_int_def)
  finally have "round_even (v / 2 powi e) = m * 2 ^ nat (j - e)"
    by (simp only: round_even_int)
  then have "toDouble v = of_int (m * 2 ^ nat (j - e)) * 2 powi e"
    using v by (simp add: toDouble_def e_def)
  also have "\<dots> = of_int m * (2 powi (j - e) * 2 powi e)"
    using e by (simp add: power_int_def)
  also have "\<dots> = v"
    by (simp add: v_def flip: power_int_add)
  finally show ?thesis
    by (simp add: v_def)
qed

lemma toDouble_int:
  assumes "\<bar>k\<bar> \<le> 2 ^ 53"
  shows "toDouble (of_int k) = of_int k"
proof (cases "\<bar>k\<bar> < 2 ^ 53")
  case True
  then show ?thesis
    using toDouble_rep [of k 0] by simp
next
  case False
  then have "k = 2 ^ 53 \<or> k = - (2 ^ 53)"
    using assms by auto
  then have "(of_int k :: real) = of_int (k div 2) * 2 powi 1" "\<bar>k div 2\<bar> < 2 ^ 53"
    by auto
  then show ?thesis
    using toDouble_rep [of "k div 2" 1] by simp
qed

lemma toDouble_idem: "toDouble (toDouble v) = toDouble v"
proof (cases "v = 0")
  case True
  then show ?thesis
    by (simp add: toDouble_def)
next
  case False
  define l where "l = \<lfloor>log 2 \<bar>v\<bar>\<rfloor>"
  define e where "e = ulp_exponent v"
  define p :: real where "p = 2 powi e"
  define m where "m = round_even (v / p)"
  have p: "0 < p"
    by (simp add: p_def)
  have e: "- 1074 \<le> e" "l - 52 \<le> e"
    by (simp_all add: e_def ulp_exponent_def l_def)
  have val: "toDouble v = of_int m * 2 powi e"
    using False by (simp add: toDouble_def m_def p_def e_def)
  have "\<bar>v\<bar> < 2 powi (l + 1)"
    using binade [OF False] by (simp add: l_def)
  also have "\<dots> \<le> 2 powi (53 + e)"
    using e(2) by (intro power_int_increasing) simp_all
  also have "\<dots> = 2 ^ 53 * p"
    by (simp add: p_def power_int_add)
  finally have "v < 2 ^ 53 * p" "- (2 ^ 53 * p) < v"
    by linarith+
  then have "v / p \<le> of_int (2 ^ 53)" "of_int (- (2 ^ 53)) \<le> v / p"
    using p by (simp_all add: field_simps)
  then have "m \<le> 2 ^ 53" "- (2 ^ 53) \<le> m"
    unfolding m_def by (simp_all only: round_even_le round_even_ge)
  then consider "\<bar>m\<bar> < 2 ^ 53" | "m = 2 ^ 53" | "m = - (2 ^ 53)"
    by linarith
  then show ?thesis
  proof cases
    case 1
    then show ?thesis
      using toDouble_rep [OF 1 e(1)] by (simp add: val)
  next
    case 2
    then have "toDouble v = of_int (2 ^ 52) * 2 powi (e + 1)"
      by (simp add: val power_int_add)
    then show ?thesis
      using toDouble_rep [of "2 ^ 52" "e + 1"] e(1) by simp
  next
    case 3
    then have "toDouble v = of_int (- (2 ^ 52)) * 2 powi (e + 1)"
      by (simp add: val power_int_add)
    then show ?thesis
      using toDouble_rep [of "- (2 ^ 52)" "e + 1"] e(1) by simp
  qed
qed

lemma isDouble_below_one:
  assumes "isDouble u" and "u < 1"
  shows "u \<le> 1 - 1 / 2 ^ 53"
proof (cases "u < 1 / 2")
  case True
  then show ?thesis
    by simp
next
  case False
  then have range: "2 powi (- 1) \<le> \<bar>u\<bar>" "\<bar>u\<bar> < 2 powi (- 1 + 1)"
    using assms(2) by simp_all
  define m where "m = round_even (u / 2 powi (- 53))"
  have u: "u = of_int m / 2 ^ 53"
    using assms(1) toDouble_eval [OF range] by (simp add: isDouble_def m_def)
  then have "(of_int m :: real) < of_int (2 ^ 53)"
    using assms(2) by simp
  then have "m < 2 ^ 53"
    by (simp only: of_int_less_iff)
  then have "m \<le> 2 ^ 53 - 1"
    by simp
  then have "(of_int m :: real) \<le> of_int (2 ^ 53 - 1)"
    by (simp only: of_int_le_iff)
  then show ?thesis
    by (simp add: u field_simps)
qed

text \<open>Error bounds through the operations of an expression.\<close>

lemma close_exact: "\<bar>w\<bar> \<le> m \<Longrightarrow> close_to w w 0 m"
  by (simp add: close_to_def)

lemma close_weaken: "close_to v w d m \<Longrightarrow> d \<le> d' \<Longrightarrow> m \<le> m' \<Longrightarrow> close_to v w d' m'"
  by (simp add: close_to_def)

lemma close_add:
  "close_to a a' da ma \<Longrightarrow> close_to b b' db mb \<Longrightarrow> close_to (a + b) (a' + b') (da + db) (ma + mb)"
  unfolding close_to_def by linarith

lemma close_diff:
  "close_to a a' da ma \<Longrightarrow> close_to b b' db mb \<Longrightarrow> close_to (a - b) (a' - b') (da + db) (ma + mb)"
  unfolding close_to_def by linarith

lemma close_minus: "close_to a a' da ma \<Longrightarrow> close_to (- a) (- a') da ma"
  unfolding close_to_def by linarith

lemma close_divide:
  assumes "close_to a a' da ma" and "1 \<le> h"
  shows "close_to (a / h) (a' / h) da ma"
proof -
  have h: "0 < h"
    using assms(2) by simp
  have "\<bar>a / h - a' / h\<bar> = \<bar>a - a'\<bar> / h"
    using h by (simp add: diff_divide_distrib [symmetric])
  also have "\<dots> \<le> \<bar>a - a'\<bar>"
    using assms(2) by (simp add: divide_le_eq mult_le_cancel_left1)
  finally have "\<bar>a / h - a' / h\<bar> \<le> da"
    using assms(1) by (simp add: close_to_def)
  moreover have "\<bar>a' / h\<bar> \<le> \<bar>a'\<bar>"
    using assms(2) by (simp add: divide_le_eq mult_le_cancel_left1)
  ultimately show ?thesis
    using assms(1) by (simp add: close_to_def)
qed

lemma close_mult:
  assumes "close_to a a' da ma" and "close_to b b' db mb"
  shows "close_to (a * b) (a' * b') (da * (mb + db) + ma * db) (ma * mb)"
proof -
  have a: "\<bar>a - a'\<bar> \<le> da" "\<bar>a'\<bar> \<le> ma" and b: "\<bar>b - b'\<bar> \<le> db" "\<bar>b'\<bar> \<le> mb"
    using assms by (simp_all add: close_to_def)
  have size: "\<bar>b\<bar> \<le> mb + db"
    using b by linarith
  have "a * b - a' * b' = (a - a') * b + a' * (b - b')"
    by (simp add: algebra_simps)
  then have "\<bar>a * b - a' * b'\<bar> \<le> \<bar>a - a'\<bar> * \<bar>b\<bar> + \<bar>a'\<bar> * \<bar>b - b'\<bar>"
    by (simp add: abs_mult [symmetric])
  also have "\<dots> \<le> da * (mb + db) + ma * db"
    using a b size by (intro add_mono mult_mono) simp_all
  finally have "\<bar>a * b - a' * b'\<bar> \<le> da * (mb + db) + ma * db" .
  moreover have "\<bar>a' * b'\<bar> \<le> ma * mb"
    unfolding abs_mult using a b by (intro mult_mono) simp_all
  ultimately show ?thesis
    by (simp add: close_to_def)
qed

lemma close_toDouble:
  assumes "close_to v w d m" and "d \<le> 1"
  shows "close_to (toDouble v) w (d + (m + 1) / 2 ^ 52) m"
proof -
  have v: "\<bar>v - w\<bar> \<le> d" "\<bar>w\<bar> \<le> m"
    using assms(1) by (simp_all add: close_to_def)
  then have size: "\<bar>v\<bar> \<le> m + 1" "1 \<le> m + 1"
    using assms(2) by linarith+
  have "\<bar>toDouble v - v\<bar> \<le> \<bar>v\<bar> / 2 ^ 53 + 1 / 2 ^ 1075"
    by (rule toDouble_err)
  also have "\<dots> \<le> (m + 1) / 2 ^ 53 + (m + 1) / 2 ^ 53"
  proof (intro add_mono)
    show "\<bar>v\<bar> / 2 ^ 53 \<le> (m + 1) / 2 ^ 53"
      using size(1) by (simp add: divide_right_mono)
    have "(1::real) / 2 ^ 1075 \<le> 1 / 2 ^ 53"
      by simp
    also have "\<dots> \<le> (m + 1) / 2 ^ 53"
      using size(2) by (simp add: divide_right_mono)
    finally show "1 / 2 ^ 1075 \<le> (m + 1) / 2 ^ 53" .
  qed
  also have "\<dots> = (m + 1) / 2 ^ 52"
    by simp
  finally have "\<bar>toDouble v - v\<bar> \<le> (m + 1) / 2 ^ 52" .
  then show ?thesis
    using v unfolding close_to_def by linarith
qed

lemmas rounded = close_weaken [OF close_toDouble]

lemma sqrt3_double:
  obtains m where "toDouble (sqrt 3) = of_int m * 2 powi (- 52)" and "\<bar>m\<bar> < 2 ^ 53"
proof -
  have low: "1 \<le> sqrt 3"
    by (rule real_le_rsqrt) simp
  have high: "sqrt 3 \<le> 19 / 10"
    by (rule real_le_lsqrt) (simp_all add: power2_eq_square)
  have range: "2 powi 0 \<le> \<bar>sqrt 3\<bar>" "\<bar>sqrt 3\<bar> < 2 powi (0 + 1)"
    using low high by simp_all
  define m where "m = round_even (sqrt 3 / 2 powi (- 52))"
  have val: "toDouble (sqrt 3) = of_int m * 2 powi (- 52)"
    using toDouble_eval [OF range] by (simp add: m_def)
  have "of_int 0 \<le> sqrt 3 / 2 powi (- 52)"
    by simp
  then have "0 \<le> m"
    unfolding m_def by (rule round_even_ge)
  moreover have "sqrt 3 / 2 powi (- 52) \<le> of_int (2 ^ 53 - 1)"
    using high by simp
  then have "m \<le> 2 ^ 53 - 1"
    unfolding m_def by (rule round_even_le)
  ultimately have "\<bar>m\<bar> < 2 ^ 53"
    by simp
  with val show ?thesis
    by (rule that)
qed

lemma sqrt3_exact:
  "toDouble (toDouble (sqrt 3)) = toDouble (sqrt 3)
   \<and> toDouble (toDouble (sqrt 3) / 2) = toDouble (sqrt 3) / 2
   \<and> toDouble (- toDouble (sqrt 3)) = - toDouble (sqrt 3)"
proof -
  obtain m where m: "toDouble (sqrt 3) = of_int m * 2 powi (- 52)" "\<bar>m\<bar> < 2 ^ 53"
    by (rule sqrt3_double)
  have halved: "toDouble (sqrt 3) / 2 = of_int m * 2 powi (- 53)"
    by (simp add: m(1))
  have "toDouble (of_int m * 2 powi (- 53)) = of_int m * 2 powi (- 53)"
    using m(2) by (intro toDouble_rep) simp_all
  then have half: "toDouble (toDouble (sqrt 3) / 2) = toDouble (sqrt 3) / 2"
    by (simp only: halved)
  have negated: "- toDouble (sqrt 3) = of_int (- m) * 2 powi (- 52)"
    by (simp add: m(1))
  have "toDouble (of_int (- m) * 2 powi (- 52)) = of_int (- m) * 2 powi (- 52)"
    using m(2) by (intro toDouble_rep) simp_all
  then have neg: "toDouble (- toDouble (sqrt 3)) = - toDouble (sqrt 3)"
    by (simp only: negated)
  show ?thesis
    using half neg toDouble_idem [of "sqrt 3"] by (intro conjI)
qed

lemma toDouble_absorbed: "toDouble (2 ^ 60 - 3) = 2 ^ 60"
proof -
  have range: "2 powi 59 \<le> \<bar>2 ^ 60 - 3 :: real\<bar>" "\<bar>2 ^ 60 - 3 :: real\<bar> < 2 powi (59 + 1)"
    by simp_all
  show ?thesis
    using toDouble_eval [OF range] by (simp add: round_even_def Let_def)
qed

section \<open>The hexagonal grid\<close>

lemma generateHexGrid_inner_eq:
  "generateHexGrid_inner q r r2 tiles = tiles @ map (HexPosition q) [r..r2]"
proof (induction q r r2 tiles rule: generateHexGrid_inner.induct)
  case (1 q r r2 tiles)
  show ?case
  proof (cases "r \<le> r2")
    case True
    then show ?thesis
      using "1.IH" by (subst generateHexGrid_inner.simps) (simp add: upto_rec1)
  next
    case False
    then show ?thesis by (subst generateHexGrid_inner.simps) simp
  qed
qed

lemma generateHexGrid_inner_row:
  "generateHexGrid_inner q (max (- radius) (- q - radius)) (min radius (- q + radius)) tiles
     = tiles @ grid_row radius q"
  unfolding generateHexGrid_inner_eq grid_row_def ..

lemma generateHexGrid_outer_eq:
  "generateHexGrid_outer radius q tiles = tiles @ concat (map (grid_row radius) [q..radius])"
proof (induction radius q tiles rule: generateHexGrid_outer.induct)
  case (1 radius q tiles)
  show ?case
  proof (cases "q \<le> radius")
    case True
    have "generateHexGrid_outer radius q tiles
            = generateHexGrid_outer radius (q + 1) (tiles @ grid_row radius q)"
      using True
      by (subst generateHexGrid_outer.simps) (simp only: generateHexGrid_inner_row if_True)
    also have "\<dots> = (tiles @ grid_row radius q) @ concat (map (grid_row radius) [q + 1..radius])"
      using "1.IH" [OF True] unfolding generateHexGrid_inner_row .
    also have "\<dots> = tiles @ concat (map (grid_row radius) [q..radius])"
      using True by (simp add: upto_rec1)
    finally show ?thesis .
  next
    case False
    then show ?thesis by (subst generateHexGrid_outer.simps) simp
  qed
qed

lemma generateHexGrid_rows:
  "generateHexGrid radius = concat (map (grid_row radius) [- radius..radius])"
  by (simp add: generateHexGrid_def generateHexGrid_outer_eq)

lemma grid_row_mem:
  "HexPosition a b \<in> set (grid_row radius q) \<longleftrightarrow>
     a = q \<and> max (- radius) (- q - radius) \<le> b \<and> b \<le> min radius (- q + radius)"
  by (auto simp: grid_row_def)

lemma set_generateHexGrid:
  "p \<in> set (generateHexGrid radius) \<longleftrightarrow> isWithinGrid p radius"
  by (cases p) (auto simp: generateHexGrid_rows grid_row_mem isWithinGrid_def Let_def)

lemma distinct_grid_rows:
  "distinct qs \<Longrightarrow> distinct (concat (map (grid_row radius) qs))"
proof (induction qs)
  case Nil
  then show ?case by simp
next
  case (Cons a qs)
  have "distinct (grid_row radius a)"
    by (simp add: grid_row_def distinct_map inj_on_def)
  moreover have "set (grid_row radius a) \<inter> (\<Union>q\<in>set qs. set (grid_row radius q)) = {}"
    using Cons.prems by (auto simp: grid_row_def)
  ultimately show ?case using Cons by simp
qed

lemma distinct_generateHexGrid: "distinct (generateHexGrid radius)"
  by (simp add: generateHexGrid_rows distinct_grid_rows)

lemma length_grid_row_low:
  "- radius \<le> q \<Longrightarrow> q \<le> 0 \<Longrightarrow> int (length (grid_row radius q)) = 2 * radius + q + 1"
  by (simp add: grid_row_def)

lemma length_grid_row_high:
  "0 \<le> q \<Longrightarrow> q \<le> radius \<Longrightarrow> int (length (grid_row radius q)) = 2 * radius - q + 1"
  by (simp add: grid_row_def)

lemma int_length_concat_map:
  "int (length (concat (map f qs))) = (\<Sum>q\<leftarrow>qs. int (length (f q)))"
  by (induction qs) simp_all

lemma sum_list_upto_high:
  "2 * (\<Sum>q\<leftarrow>[0..int n]. c - q) = 2 * (int n + 1) * c - int n * (int n + 1)"
proof (induction n)
  case 0
  then show ?case by (simp add: upto_rec1)
next
  case (Suc n)
  have "[0..int (Suc n)] = [0..int n] @ [int n + 1]"
    by (simp add: upto_rec2)
  then show ?case using Suc by (simp add: algebra_simps)
qed

lemma sum_list_upto_low:
  "2 * (\<Sum>q\<leftarrow>[- int n..- 1]. c + q) = 2 * int n * c - int n * (int n + 1)"
proof (induction n)
  case 0
  then show ?case by simp
next
  case (Suc n)
  have "[- int (Suc n)..- 1] = (- int n - 1) # [- int n..- 1]"
    by (simp add: upto_rec1)
  then show ?case using Suc by (simp add: algebra_simps)
qed

lemma length_generateHexGrid:
  assumes "0 \<le> radius"
  shows "int (length (generateHexGrid radius)) = 3 * radius * radius + 3 * radius + 1"
proof -
  obtain n where n: "radius = int n"
    using assms nonneg_int_cases by blast
  have split: "[- radius..radius] = [- radius..- 1] @ [0..radius]"
    using assms upto_split1 [of "- radius" 0 radius] by simp
  have low: "(\<Sum>q\<leftarrow>[- radius..- 1]. int (length (grid_row radius q)))
               = (\<Sum>q\<leftarrow>[- radius..- 1]. (2 * radius + 1) + q)"
    by (rule arg_cong [where f = sum_list], rule map_cong) (simp_all add: length_grid_row_low)
  have high: "(\<Sum>q\<leftarrow>[0..radius]. int (length (grid_row radius q)))
               = (\<Sum>q\<leftarrow>[0..radius]. (2 * radius + 1) - q)"
    by (rule arg_cong [where f = sum_list], rule map_cong) (simp_all add: length_grid_row_high)
  have "2 * int (length (generateHexGrid radius))
          = 2 * (\<Sum>q\<leftarrow>[- radius..- 1]. (2 * radius + 1) + q)
            + 2 * (\<Sum>q\<leftarrow>[0..radius]. (2 * radius + 1) - q)"
    by (simp add: generateHexGrid_rows int_length_concat_map split low high)
  also have "\<dots> = 2 * (3 * radius * radius + 3 * radius + 1)"
    unfolding n sum_list_upto_low sum_list_upto_high by (simp add: algebra_simps)
  finally show ?thesis by simp
qed

text \<open>
  Claim C3. For every radius \<open>r \<ge> 0\<close>, \<^verbatim>\<open>generateHexGrid(r)\<close> returns exactly
  \<open>3r\<^sup>2 + 3r + 1\<close> coordinates, no two of them equal, and a coordinate \<open>(q, r')\<close> with
  \<open>s = - q - r'\<close> is in the list if and only if \<open>\<bar>q\<bar> \<le> r\<close>, \<open>\<bar>r'\<bar> \<le> r\<close> and \<open>\<bar>s\<bar> \<le> r\<close>,
  which is the test \<^verbatim>\<open>isWithinGrid\<close> makes.
\<close>

theorem generateHexGrid_hexagon:
  "0 \<le> radius \<Longrightarrow>
     int (length (generateHexGrid radius)) = 3 * radius\<^sup>2 + 3 * radius + 1
     \<and> distinct (generateHexGrid radius)
     \<and> (\<forall>a b. HexPosition a b \<in> set (generateHexGrid radius)
            \<longleftrightarrow> \<bar>a\<bar> \<le> radius \<and> \<bar>b\<bar> \<le> radius \<and> \<bar>- a - b\<bar> \<le> radius)
     \<and> (\<forall>p. p \<in> set (generateHexGrid radius) \<longleftrightarrow> isWithinGrid p radius)"
  by (simp add: length_generateHexGrid distinct_generateHexGrid set_generateHexGrid
      isWithinGrid_def power2_eq_square)

theorem generateHexGrid_hexagon_witness:
  "(0::int) \<le> 2
     \<and> length (generateHexGrid 2) = 19
     \<and> distinct (generateHexGrid 2)
     \<and> HexPosition 2 (- 2) \<in> set (generateHexGrid 2)
     \<and> HexPosition 2 1 \<notin> set (generateHexGrid 2)
     \<and> isWithinGrid (HexPosition (- 1) 2) 2"
  using generateHexGrid_hexagon [of 2] by (simp add: isWithinGrid_def)

text \<open>
  The projection and its inverse. In exact arithmetic \<^verbatim>\<open>hexRound\<close> returns the hex
  \<open>(q, r)\<close> for every fractional coordinate whose three cube components are each less
  than one half away from those of the hex, and the inverse projection of a hex centre
  is the hex itself, whatever the size and the centre.
\<close>

lemma math_round_near:
  assumes "\<bar>v - of_int n\<bar> < 1 / 2"
  shows "math_round v = n"
proof -
  have "of_int n \<le> v + 1 / 2" "v + 1 / 2 < of_int n + 1"
    using assms by linarith+
  then show ?thesis
    by (simp add: math_round_def floor_eq_iff)
qed

lemma hexRound_near:
  assumes "\<bar>x - of_int q\<bar> < 1 / 2"
    and "\<bar>y - of_int r\<bar> < 1 / 2"
    and "\<bar>(- x - y) - of_int (- q - r)\<bar> < 1 / 2"
  shows "hexRound x y = HexPosition q r"
  by (simp add: hexRound_def Let_def math_round_near [OF assms(1)] math_round_near [OF assms(2)]
      math_round_near [OF assms(3)])

lemma pixelToAxial_axialToPixel_exact:
  assumes "hexRadius \<noteq> 0"
  shows "pixelToAxial (fst (axialToPixel pos hexRadius cx cy))
            (snd (axialToPixel pos hexRadius cx cy)) hexRadius cx cy
       = pos"
proof -
  have q: "(sqrt 3 / 3 * (hexRadius * (sqrt 3 * of_int (hex_q pos) + sqrt 3 / 2 * of_int (hex_r pos)))
        - 1 / 3 * (hexRadius * (1.5 * of_int (hex_r pos)))) / hexRadius = of_int (hex_q pos)"
  proof -
    have "sqrt 3 * sqrt 3 = (3::real)"
      by simp
    then have "sqrt 3 / 3 * (hexRadius * (sqrt 3 * of_int (hex_q pos) + sqrt 3 / 2 * of_int (hex_r pos)))
        = hexRadius * (of_int (hex_q pos) + of_int (hex_r pos) / 2)"
      by (simp add: algebra_simps)
    then show ?thesis
      using assms by (simp add: algebra_simps)
  qed
  have r: "(2 / 3 * (hexRadius * (1.5 * of_int (hex_r pos)))) / hexRadius = of_int (hex_r pos)"
    using assms by simp
  have "pixelToAxial (fst (axialToPixel pos hexRadius cx cy))
            (snd (axialToPixel pos hexRadius cx cy)) hexRadius cx cy
      = hexRound
          ((sqrt 3 / 3 * (hexRadius * (sqrt 3 * of_int (hex_q pos) + sqrt 3 / 2 * of_int (hex_r pos)))
             - 1 / 3 * (hexRadius * (1.5 * of_int (hex_r pos)))) / hexRadius)
          ((2 / 3 * (hexRadius * (1.5 * of_int (hex_r pos)))) / hexRadius)"
    by (simp only: pixelToAxial_def axialToPixel_def Let_def fst_conv snd_conv
        add_diff_cancel_right')
  also have "\<dots> = hexRound (of_int (hex_q pos)) (of_int (hex_r pos))"
    by (simp only: q r)
  also have "\<dots> = HexPosition (hex_q pos) (hex_r pos)"
    by (rule hexRound_near) simp_all
  finally show ?thesis
    by simp
qed

text \<open>
  In double arithmetic \<^verbatim>\<open>hexRound\<close> returns the hex \<open>(q, r)\<close> as soon as the three calls
  of \<^verbatim>\<open>Math.round\<close> return \<open>q\<close>, \<open>r\<close> and \<open>- q - r\<close>: whichever branch the comparison of
  the rounded differences takes, the component it recomputes comes out the same. The
  error of each operation of the two projections is then followed through the
  expressions, for bounded coordinates, sizes and centres.
\<close>

lemma hexRound_double_near:
  assumes "math_round x = q" and "math_round y = r"
    and "math_round (toDouble (- x - y)) = - q - r"
  shows "hexRound_double x y = HexPosition q r"
  by (simp add: hexRound_double_def Let_def assms)

lemma sqrt3_bound: "\<bar>sqrt 3\<bar> \<le> 2"
proof -
  have "sqrt 3 \<le> 2"
    by (rule real_le_lsqrt) simp_all
  then show ?thesis
    by simp
qed

lemma inverse_projection_q:
  fixes h q r cx cy :: real
  assumes "h \<noteq> 0"
  shows "(sqrt 3 / 3 * (h * (sqrt 3 * q + sqrt 3 / 2 * r) + cx - cx)
            - 1 / 3 * (h * (1.5 * r) + cy - cy)) / h = q"
proof -
  have "sqrt 3 * sqrt 3 = (3::real)"
    by simp
  then have "sqrt 3 / 3 * (h * (sqrt 3 * q + sqrt 3 / 2 * r)) = h * (q + r / 2)"
    by (simp add: algebra_simps)
  then show ?thesis
    using assms by (simp add: algebra_simps)
qed

lemma inverse_projection_r:
  fixes h r cy :: real
  assumes "h \<noteq> 0"
  shows "(2 / 3 * (h * (1.5 * r) + cy - cy)) / h = r"
  using assms by simp

lemma round_trip_double:
  fixes h cx cy :: real and pos :: HexPosition
  assumes q: "\<bar>hex_q pos\<bar> \<le> 1000" and r: "\<bar>hex_r pos\<bar> \<le> 1000"
    and h: "1 \<le> h" "h \<le> 1000"
    and cx: "\<bar>cx\<bar> \<le> 1000000" and cy: "\<bar>cy\<bar> \<le> 1000000"
  shows "pixelToAxial_double (fst (axialToPixel_double pos h cx cy))
           (snd (axialToPixel_double pos h cx cy)) h cx cy = pos"
proof -
  define q where "q = (of_int (hex_q pos) :: real)"
  define r where "r = (of_int (hex_r pos) :: real)"
  define s3 where "s3 = toDouble (sqrt 3)"
  define x where
    "x = toDouble (toDouble (h * toDouble (toDouble (s3 * q) + toDouble (toDouble (s3 / 2) * r))) + cx)"
  define y where "y = toDouble (toDouble (h * toDouble (1.5 * r)) + cy)"
  define relX where "relX = toDouble (x - cx)"
  define relY where "relY = toDouble (y - cy)"
  define qf where
    "qf = toDouble (toDouble (toDouble (toDouble (s3 / 3) * relX) - toDouble (toDouble (1 / 3) * relY)) / h)"
  define rf where "rf = toDouble (toDouble (toDouble (2 / 3) * relY) / h)"
  have Q: "close_to q q 0 1000" and R: "close_to r r 0 1000"
    using assms(1,2) by (simp_all add: close_to_def q_def r_def flip: of_int_abs)
  have H: "close_to h h 0 1000"
    using h by (simp add: close_to_def)
  have CX: "close_to cx cx 0 1000000" and CY: "close_to cy cy 0 1000000"
    using cx cy by (simp_all add: close_to_def)
  have S: "close_to s3 (sqrt 3) (3 / 2 ^ 52) 2"
    unfolding s3_def by (rule rounded [OF close_exact [OF sqrt3_bound]]) simp_all
  have T1: "close_to (toDouble (s3 * q)) (sqrt 3 * q) (6000 / 2 ^ 52) 2000"
    by (rule rounded [OF close_mult [OF S Q]]) simp_all
  have H2: "close_to (toDouble (s3 / 2)) (sqrt 3 / 2) (6 / 2 ^ 52) 2"
    by (rule rounded [OF close_divide [OF S]]) simp_all
  have T2: "close_to (toDouble (toDouble (s3 / 2) * r)) (sqrt 3 / 2 * r) (9000 / 2 ^ 52) 2000"
    by (rule rounded [OF close_mult [OF H2 R]]) simp_all
  have T3: "close_to (toDouble (toDouble (s3 * q) + toDouble (toDouble (s3 / 2) * r)))
      (sqrt 3 * q + sqrt 3 / 2 * r) (20000 / 2 ^ 52) 4000"
    by (rule rounded [OF close_add [OF T1 T2]]) simp_all
  have T4: "close_to (toDouble (h * toDouble (toDouble (s3 * q) + toDouble (toDouble (s3 / 2) * r))))
      (h * (sqrt 3 * q + sqrt 3 / 2 * r)) (25000000 / 2 ^ 52) 4000000"
    by (rule rounded [OF close_mult [OF H T3]]) simp_all
  have X: "close_to x (h * (sqrt 3 * q + sqrt 3 / 2 * r) + cx) (31000000 / 2 ^ 52) 5000000"
    unfolding x_def by (rule rounded [OF close_add [OF T4 CX]]) simp_all
  have RX: "close_to relX (h * (sqrt 3 * q + sqrt 3 / 2 * r) + cx - cx) (38000000 / 2 ^ 52) 6000000"
    unfolding relX_def by (rule rounded [OF close_diff [OF X CX]]) simp_all
  have U0: "close_to (1.5::real) 1.5 0 2"
    by (simp add: close_to_def)
  have U1: "close_to (toDouble (1.5 * r)) (1.5 * r) (2001 / 2 ^ 52) 2000"
    by (rule rounded [OF close_mult [OF U0 R]]) simp_all
  have U2: "close_to (toDouble (h * toDouble (1.5 * r))) (h * (1.5 * r)) (5000000 / 2 ^ 52) 2000000"
    by (rule rounded [OF close_mult [OF H U1]]) simp_all
  have Y: "close_to y (h * (1.5 * r) + cy) (9000000 / 2 ^ 52) 3000000"
    unfolding y_def by (rule rounded [OF close_add [OF U2 CY]]) simp_all
  have RY: "close_to relY (h * (1.5 * r) + cy - cy) (14000000 / 2 ^ 52) 4000000"
    unfolding relY_def by (rule rounded [OF close_diff [OF Y CY]]) simp_all
  have C3: "close_to (toDouble (s3 / 3)) (sqrt 3 / 3) (6 / 2 ^ 52) 2"
    by (rule rounded [OF close_divide [OF S]]) simp_all
  have P1: "close_to (toDouble (toDouble (s3 / 3) * relX))
      (sqrt 3 / 3 * (h * (sqrt 3 * q + sqrt 3 / 2 * r) + cx - cx)) (130000000 / 2 ^ 52) 12000000"
    by (rule rounded [OF close_mult [OF C3 RX]]) simp_all
  have C4: "close_to (toDouble (1 / 3)) (1 / 3) (2 / 2 ^ 52) 1"
    by (rule rounded [OF close_exact [of "1 / 3" 1]]) simp_all
  have P2: "close_to (toDouble (toDouble (1 / 3) * relY)) (1 / 3 * (h * (1.5 * r) + cy - cy))
      (30000000 / 2 ^ 52) 4000000"
    by (rule rounded [OF close_mult [OF C4 RY]]) simp_all
  have P3: "close_to (toDouble (toDouble (toDouble (s3 / 3) * relX) - toDouble (toDouble (1 / 3) * relY)))
      (sqrt 3 / 3 * (h * (sqrt 3 * q + sqrt 3 / 2 * r) + cx - cx)
         - 1 / 3 * (h * (1.5 * r) + cy - cy)) (180000000 / 2 ^ 52) 16000000"
    by (rule rounded [OF close_diff [OF P1 P2]]) simp_all
  have QF: "close_to qf
      ((sqrt 3 / 3 * (h * (sqrt 3 * q + sqrt 3 / 2 * r) + cx - cx)
         - 1 / 3 * (h * (1.5 * r) + cy - cy)) / h) (200000000 / 2 ^ 52) 16000000"
    unfolding qf_def by (rule rounded [OF close_divide [OF P3 h(1)]]) simp_all
  have C5: "close_to (toDouble (2 / 3)) (2 / 3) (2 / 2 ^ 52) 1"
    by (rule rounded [OF close_exact [of "2 / 3" 1]]) simp_all
  have P4: "close_to (toDouble (toDouble (2 / 3) * relY)) (2 / 3 * (h * (1.5 * r) + cy - cy))
      (30000000 / 2 ^ 52) 4000000"
    by (rule rounded [OF close_mult [OF C5 RY]]) simp_all
  have RF: "close_to rf ((2 / 3 * (h * (1.5 * r) + cy - cy)) / h) (40000000 / 2 ^ 52) 4000000"
    unfolding rf_def by (rule rounded [OF close_divide [OF P4 h(1)]]) simp_all
  have SF: "close_to (toDouble (- qf - rf))
      (- ((sqrt 3 / 3 * (h * (sqrt 3 * q + sqrt 3 / 2 * r) + cx - cx)
             - 1 / 3 * (h * (1.5 * r) + cy - cy)) / h)
         - (2 / 3 * (h * (1.5 * r) + cy - cy)) / h) (300000000 / 2 ^ 52) 20000000"
    by (rule rounded [OF close_diff [OF close_minus [OF QF] RF]]) simp_all
  have nonzero: "h \<noteq> 0"
    using h(1) by simp
  note exact = inverse_projection_q [where h = h and q = q and r = r and cx = cx and cy = cy, OF nonzero]
    inverse_projection_r [where h = h and r = r and cy = cy, OF nonzero]
  have "\<bar>qf - q\<bar> \<le> 200000000 / 2 ^ 52" "\<bar>rf - r\<bar> \<le> 40000000 / 2 ^ 52"
    "\<bar>toDouble (- qf - rf) - (- q - r)\<bar> \<le> 300000000 / 2 ^ 52"
    using QF RF SF by (simp_all only: exact close_to_def)
  then have "\<bar>qf - of_int (hex_q pos)\<bar> < 1 / 2" "\<bar>rf - of_int (hex_r pos)\<bar> < 1 / 2"
    "\<bar>toDouble (- qf - rf) - of_int (- hex_q pos - hex_r pos)\<bar> < 1 / 2"
    by (simp_all add: q_def r_def)
  then have "hexRound_double qf rf = HexPosition (hex_q pos) (hex_r pos)"
    by (intro hexRound_double_near math_round_near)
  moreover have "pixelToAxial_double (fst (axialToPixel_double pos h cx cy))
           (snd (axialToPixel_double pos h cx cy)) h cx cy = hexRound_double qf rf"
    by (simp add: pixelToAxial_double_def axialToPixel_double_def Let_def qf_def rf_def relX_def
        relY_def x_def y_def s3_def q_def r_def)
  ultimately show ?thesis
    by simp
qed

text \<open>
  Claim C4 fails as stated, for every hex size and centre: with hex size 1 and the
  centre \<open>(0, 2\<^sup>6\<^sup>0)\<close>, the hex \<open>(1, -2)\<close> of the grid of radius 2 is projected onto the
  pixel \<open>(0, 2\<^sup>6\<^sup>0)\<close>, as the hex \<open>(0, 0)\<close> is: \<^verbatim>\<open>Math.sqrt(3) * 1 + Math.sqrt(3) / 2 * -2\<close>
  is zero, and the sum \<open>-3 + 2\<^sup>6\<^sup>0\<close> is rounded to \<open>2\<^sup>6\<^sup>0\<close>, the doubles next to \<open>2\<^sup>6\<^sup>0\<close>
  being 128 apart. \<^verbatim>\<open>pixelToAxial\<close> maps that pixel to the hex \<open>(0, 0)\<close>.
\<close>

theorem pixelToAxial_axialToPixel_counterexample:
  "HexPosition 1 (- 2) \<in> set (generateHexGrid 2)
   \<and> isDouble 1 \<and> isDouble 0 \<and> isDouble (2 ^ 60)
   \<and> axialToPixel_double (HexPosition 1 (- 2)) 1 0 (2 ^ 60) = (0, 2 ^ 60)
   \<and> axialToPixel_double (HexPosition 0 0) 1 0 (2 ^ 60) = (0, 2 ^ 60)
   \<and> pixelToAxial_double (fst (axialToPixel_double (HexPosition 1 (- 2)) 1 0 (2 ^ 60)))
          (snd (axialToPixel_double (HexPosition 1 (- 2)) 1 0 (2 ^ 60))) 1 0 (2 ^ 60)
        = HexPosition 0 0"
proof -
  have grid: "HexPosition 1 (- 2) \<in> set (generateHexGrid 2)"
    by (simp add: set_generateHexGrid isWithinGrid_def)
  have "toDouble (of_int 1 * 2 powi 60) = of_int 1 * 2 powi 60"
    by (rule toDouble_rep) simp_all
  then have doubles: "isDouble 1 \<and> isDouble 0 \<and> isDouble (2 ^ 60)"
    using toDouble_int [of 1] by (simp add: isDouble_def toDouble_zero)
  have three: "toDouble (- 3) = - 3"
    using toDouble_int [of "- 3"] by simp
  have x: "fst (axialToPixel_double (HexPosition 1 (- 2)) 1 0 (2 ^ 60)) = 0"
    using sqrt3_exact by (simp add: axialToPixel_double_def Let_def toDouble_zero)
  have y: "snd (axialToPixel_double (HexPosition 1 (- 2)) 1 0 (2 ^ 60)) = 2 ^ 60"
    using toDouble_absorbed by (simp add: axialToPixel_double_def Let_def three)
  have pixel: "axialToPixel_double (HexPosition 1 (- 2)) 1 0 (2 ^ 60) = (0, 2 ^ 60)"
    using x y by (simp add: prod_eq_iff)
  have "toDouble (of_int 1 * 2 powi 60) = of_int 1 * 2 powi 60"
    by (rule toDouble_rep) simp_all
  then have origin: "axialToPixel_double (HexPosition 0 0) 1 0 (2 ^ 60) = (0, 2 ^ 60)"
    by (simp add: axialToPixel_double_def Let_def toDouble_zero)
  have returned: "pixelToAxial_double 0 (2 ^ 60) 1 0 (2 ^ 60) = HexPosition 0 0"
    by (simp add: pixelToAxial_double_def hexRound_double_def math_round_def Let_def toDouble_zero)
  show ?thesis
    using grid doubles pixel origin returned by simp
qed

text \<open>
  Claim C4, amended. For every coordinate \<open>p\<close> that \<^verbatim>\<open>generateHexGrid\<close> returns:
  in exact arithmetic \<^verbatim>\<open>hexRound\<close> returns \<open>p\<close> at \<open>p\<close>, and \<^verbatim>\<open>pixelToAxial\<close> applied to
  \<^verbatim>\<open>axialToPixel(p)\<close> returns \<open>p\<close> for every hex size other than zero and every centre;
  in the double arithmetic of the program the same round trip returns \<open>p\<close> for every
  grid radius up to 1000, every hex size from 1 to 1000 and every centre whose
  coordinates are at most \<open>10\<^sup>6\<close> in magnitude, which covers the radius 6, the size 40 and
  the canvas centres of the game.
\<close>

theorem pixelToAxial_axialToPixel_round_trip:
  assumes "pos \<in> set (generateHexGrid radius)"
  shows "hexRound (of_int (hex_q pos)) (of_int (hex_r pos)) = pos
     \<and> (hexRadius \<noteq> 0 \<longrightarrow>
          pixelToAxial (fst (axialToPixel pos hexRadius cx cy))
            (snd (axialToPixel pos hexRadius cx cy)) hexRadius cx cy = pos)
     \<and> (radius \<le> 1000 \<and> 1 \<le> hexRadius \<and> hexRadius \<le> 1000
          \<and> \<bar>cx\<bar> \<le> 1000000 \<and> \<bar>cy\<bar> \<le> 1000000 \<longrightarrow>
          pixelToAxial_double (fst (axialToPixel_double pos hexRadius cx cy))
            (snd (axialToPixel_double pos hexRadius cx cy)) hexRadius cx cy = pos)"
proof -
  have inside: "\<bar>hex_q pos\<bar> \<le> radius" "\<bar>hex_r pos\<bar> \<le> radius"
    using assms by (simp_all add: set_generateHexGrid isWithinGrid_def Let_def)
  have "hexRound (of_int (hex_q pos)) (of_int (hex_r pos)) = HexPosition (hex_q pos) (hex_r pos)"
    by (rule hexRound_near) simp_all
  then have centre: "hexRound (of_int (hex_q pos)) (of_int (hex_r pos)) = pos"
    by simp
  have rounded: "pixelToAxial_double (fst (axialToPixel_double pos hexRadius cx cy))
            (snd (axialToPixel_double pos hexRadius cx cy)) hexRadius cx cy = pos"
    if "radius \<le> 1000" and "1 \<le> hexRadius" and "hexRadius \<le> 1000"
      and "\<bar>cx\<bar> \<le> 1000000" and "\<bar>cy\<bar> \<le> 1000000"
    using inside that by (intro round_trip_double) simp_all
  show ?thesis
    using centre pixelToAxial_axialToPixel_exact [of hexRadius pos cx cy] rounded by blast
qed

theorem pixelToAxial_axialToPixel_round_trip_witness:
  "HexPosition 3 (- 5) \<in> set (generateHexGrid GRID_RADIUS)
   \<and> HEX_SIZE \<noteq> 0 \<and> GRID_RADIUS \<le> 1000 \<and> 1 \<le> HEX_SIZE \<and> HEX_SIZE \<le> 1000
   \<and> \<bar>400 :: real\<bar> \<le> 1000000 \<and> \<bar>300 :: real\<bar> \<le> 1000000
   \<and> hexRound 3 (- 5) = HexPosition 3 (- 5)
   \<and> pixelToAxial (fst (axialToPixel (HexPosition 3 (- 5)) HEX_SIZE 400 300))
        (snd (axialToPixel (HexPosition 3 (- 5)) HEX_SIZE 400 300)) HEX_SIZE 400 300
      = HexPosition 3 (- 5)
   \<and> pixelToAxial_double (fst (axialToPixel_double (HexPosition 3 (- 5)) HEX_SIZE 400 300))
        (snd (axialToPixel_double (HexPosition 3 (- 5)) HEX_SIZE 400 300)) HEX_SIZE 400 300
      = HexPosition 3 (- 5)"
proof -
  have grid: "HexPosition 3 (- 5) \<in> set (generateHexGrid GRID_RADIUS)"
    by (simp add: set_generateHexGrid isWithinGrid_def GRID_RADIUS_def)
  have bounds: "HEX_SIZE \<noteq> 0 \<and> GRID_RADIUS \<le> 1000 \<and> 1 \<le> HEX_SIZE \<and> HEX_SIZE \<le> 1000
      \<and> \<bar>400 :: real\<bar> \<le> 1000000 \<and> \<bar>300 :: real\<bar> \<le> 1000000"
    by (simp add: HEX_SIZE_def GRID_RADIUS_def)
  show ?thesis
    using grid bounds pixelToAxial_axialToPixel_round_trip [OF grid, of HEX_SIZE 400 300]
    by simp
qed


section \<open>GameState: tiles, eliminations and the end of the match\<close>

lemmas helper_defs =
  setTile_def setPlayer_def emitEvent_def emit_def setTimeout_def clearTimeout_def

lemmas example_defs =
  exampleWorld_def exampleBoard_def exampleKeys_def Tile_new_def Player_new_def
  TileFallManager_new_def fall_def

lemma markTileWarning_missing:
  "map_of (board (gameState w)) posKey = None \<Longrightarrow> markTileWarning posKey w = w"
  by (simp add: markTileWarning_def)

lemma markTileWarning_inactive:
  "map_of (board (gameState w)) posKey = Some tile \<Longrightarrow> \<not> isActive tile \<Longrightarrow>
     markTileWarning posKey w = w"
  by (simp add: markTileWarning_def)

lemma markTileWarning_active:
  "map_of (board (gameState w)) posKey = Some tile \<Longrightarrow> isActive tile \<Longrightarrow>
     markTileWarning posKey w =
       emitEvent (TileWarning posKey) (setTile posKey (startWarning (clock w) tile) w)"
  by (simp add: markTileWarning_def)

lemma removeTile_missing:
  "map_of (board (gameState w)) posKey = None \<Longrightarrow> removeTile posKey w = w"
  by (simp add: removeTile_def)

lemma removeTile_present:
  "map_of (board (gameState w)) posKey = Some tile \<Longrightarrow>
     removeTile posKey w =
       emitEvent (TileFallen posKey) (setTile posKey (startShatter (clock w) tile) w)"
  by (simp add: removeTile_def)

text \<open>
  Claim C9, at the input where the code departs from it. Tile \<open>0,1\<close> of the example
  state has fallen (it is on the board and inactive). \<^verbatim>\<open>markTileWarning\<close> leaves the
  state as it is, since it tests \<^verbatim>\<open>tile && tile.isActive\<close>; \<^verbatim>\<open>removeTile\<close> tests
  \<^verbatim>\<open>tile\<close> only: it puts the fallen tile back into its shattering state and emits
  \<^verbatim>\<open>tileFallen\<close>.
\<close>

theorem removeTile_inactive_tile:
  "map_of (board (gameState exampleWorld)) ''0,1'' = Some (fall (Tile_new (HexPosition 0 1)))
   \<and> \<not> isActive (fall (Tile_new (HexPosition 0 1)))
   \<and> markTileWarning ''0,1'' exampleWorld = exampleWorld
   \<and> removeTile ''0,1'' exampleWorld \<noteq> exampleWorld
   \<and> map_of (board (gameState (removeTile ''0,1'' exampleWorld))) ''0,1''
        = Some ((fall (Tile_new (HexPosition 0 1)))\<lparr>isShattering := True, shatterStartTime := 1000\<rparr>)
   \<and> emitted (events (gameState (removeTile ''0,1'' exampleWorld))) = [TileFallen ''0,1'']"
proof -
  have tile: "map_of (board (gameState exampleWorld)) ''0,1'' = Some (fall (Tile_new (HexPosition 0 1)))"
    by (simp add: exampleWorld_def exampleBoard_def)
  have inactive: "\<not> isActive (fall (Tile_new (HexPosition 0 1)))"
    by (simp add: fall_def)
  have trace: "emitted (events (gameState (removeTile ''0,1'' exampleWorld))) = [TileFallen ''0,1'']"
    by (simp add: removeTile_present [OF tile] helper_defs) (simp add: exampleWorld_def)
  have "emitted (events (gameState exampleWorld)) = []"
    by (simp add: exampleWorld_def)
  with trace have changed: "removeTile ''0,1'' exampleWorld \<noteq> exampleWorld"
    by auto
  have shatter: "map_of (board (gameState (removeTile ''0,1'' exampleWorld))) ''0,1''
        = Some ((fall (Tile_new (HexPosition 0 1)))\<lparr>isShattering := True, shatterStartTime := 1000\<rparr>)"
    by (simp add: removeTile_present [OF tile] helper_defs startShatter_def update_conv')
       (simp add: exampleWorld_def fall_def)
  show ?thesis
    using tile inactive markTileWarning_inactive [OF tile inactive] changed shatter trace
    by simp
qed

lemma filter_absent: "x \<notin> set xs \<Longrightarrow> filter (\<lambda>p. p \<noteq> x) xs = xs"
  by (induction xs) auto

lemma checkPlayersOnTile_alive:
  "set (checkPlayersOnTile posKey w) \<subseteq> set (alivePlayers (gameState w))"
  by (auto simp: checkPlayersOnTile_def split: option.splits)

lemma updatePlayerMovement_falling:
  "isFalling (playerObjs w ref) \<Longrightarrow> updatePlayerMovement ref deltaTime w = w"
  by (simp add: updatePlayerMovement_def)

section \<open>The delayed game-over check\<close>

lemma eliminatePlayer_timers:
  "timers (eliminatePlayer ref w)
     = (if length (filter (\<lambda>p. p \<noteq> ref) (alivePlayers (gameState w))) \<le> 1
        then timers w
             @ [(nextTimerId w, clock w + fallDuration (playerObjs w ref), GameOverCheck)]
        else timers w)"
  by (simp add: eliminatePlayer_def helper_defs Let_def)

lemma fire_gameOverCheck:
  "snd (snd t) = GameOverCheck \<Longrightarrow>
     fire t chance pick w =
       gameOverCheck (w\<lparr>timers := filter (\<lambda>t'. fst t' \<noteq> fst t) (timers w),
                         clock := max (clock w) (fst (snd t))\<rparr>)"
  by (simp add: fire_def)

text \<open>
  Claim C8. \<^verbatim>\<open>eliminatePlayer\<close> schedules the check, due one fall duration later,
  exactly when the elimination leaves at most one player alive. When the check fires,
  it sets the phase to \<^verbatim>\<open>GameOver\<close> and emits \<^verbatim>\<open>gameOver\<close> if at most one player is
  alive and the phase is \<^verbatim>\<open>InProgress\<close> at that moment, and otherwise leaves the game
  state as it is. The payload is the one player left, or \<^verbatim>\<open>null\<close> when none is left.
  After a \<^verbatim>\<open>reset\<close> the check finds the phase \<^verbatim>\<open>WaitingToStart\<close> and does nothing.
\<close>

theorem gameOver_delayed_check:
  assumes "snd (snd t) = GameOverCheck"
  shows "timers (eliminatePlayer ref w)
       = (if length (filter (\<lambda>p. p \<noteq> ref) (alivePlayers (gameState w))) \<le> 1
          then timers w
               @ [(nextTimerId w, clock w + fallDuration (playerObjs w ref), GameOverCheck)]
          else timers w)
     \<and> (length (alivePlayers (gameState w)) \<le> 1 \<and> matchPhase (gameState w) = InProgress \<longrightarrow>
          matchPhase (gameState (fire t chance pick w)) = GameOver
          \<and> emitted (events (gameState (fire t chance pick w)))
               = emitted (events (gameState w))
                 @ [GameOverEvent (case alivePlayers (gameState w) of
                                     [] \<Rightarrow> None | p # _ \<Rightarrow> Some p)])
     \<and> (\<not> (length (alivePlayers (gameState w)) \<le> 1 \<and> matchPhase (gameState w) = InProgress) \<longrightarrow>
          gameState (fire t chance pick w) = gameState w)
     \<and> (alivePlayers (gameState w) = [winner] \<and> matchPhase (gameState w) = InProgress \<longrightarrow>
          emitted (events (gameState (fire t chance pick w)))
            = emitted (events (gameState w)) @ [GameOverEvent (Some winner)])
     \<and> (alivePlayers (gameState w) = [] \<and> matchPhase (gameState w) = InProgress \<longrightarrow>
          emitted (events (gameState (fire t chance pick w)))
            = emitted (events (gameState w)) @ [GameOverEvent None])
     \<and> matchPhase (gameState (fire t chance pick (reset w))) = WaitingToStart
     \<and> emitted (events (gameState (fire t chance pick (reset w))))
          = emitted (events (gameState w))"
  by (simp add: eliminatePlayer_timers fire_gameOverCheck [OF assms] gameOverCheck_def
      helper_defs reset_def clear_def)

theorem gameOver_delayed_check_witness:
  "snd (snd (1, 1800, GameOverCheck)) = GameOverCheck
   \<and> timers exampleEliminated = [(1, 1800, GameOverCheck)]
   \<and> alivePlayers (gameState exampleEliminated) = [1]
   \<and> matchPhase (gameState exampleEliminated) = InProgress
   \<and> matchPhase (gameState (fire (1, 1800, GameOverCheck) 0 0 exampleEliminated)) = GameOver
   \<and> emitted (events (gameState (fire (1, 1800, GameOverCheck) 0 0 exampleEliminated)))
        = [PlayerEliminated 0, GameOverEvent (Some 1)]
   \<and> alivePlayers (gameState exampleDraw) = []
   \<and> emitted (events (gameState (fire (1, 1800, GameOverCheck) 0 0 exampleDraw)))
        = [PlayerEliminated 0, PlayerEliminated 1, GameOverEvent None]
   \<and> matchPhase (gameState (fire (1, 1800, GameOverCheck) 0 0 (reset exampleEliminated)))
        = WaitingToStart"
proof -
  have cb: "snd (snd (1::nat, 1800::real, GameOverCheck)) = GameOverCheck"
    by simp
  have one: "timers exampleEliminated = [(1, 1800, GameOverCheck)]
      \<and> alivePlayers (gameState exampleEliminated) = [1]
      \<and> matchPhase (gameState exampleEliminated) = InProgress
      \<and> emitted (events (gameState exampleEliminated)) = [PlayerEliminated 0]"
    by (simp add: exampleEliminated_def eliminatePlayer_def helper_defs Let_def example_defs)
  have none: "alivePlayers (gameState exampleDraw) = []
      \<and> matchPhase (gameState exampleDraw) = InProgress
      \<and> emitted (events (gameState exampleDraw)) = [PlayerEliminated 0, PlayerEliminated 1]"
    by (simp add: exampleDraw_def exampleEliminated_def eliminatePlayer_def helper_defs Let_def
        example_defs)
  show ?thesis
    using cb one none
      gameOver_delayed_check [OF cb, of 0 exampleEliminated 0 0 1]
      gameOver_delayed_check [OF cb, of 0 exampleDraw 0 0 1]
    by simp
qed

section \<open>The scheduler's interval\<close>

lemma fallInterval_selectRandomTile:
  "fallInterval (tileFallManager (selectRandomTile chance pick w))
     = fallInterval (tileFallManager w)"
  by (simp add: selectRandomTile_def markTileWarning_def helper_defs Let_def
      split: option.splits prod.splits)

lemma fallInterval_scheduleNextFall:
  "fallInterval (tileFallManager (scheduleNextFall w)) = fallInterval (tileFallManager w)"
  by (simp add: scheduleNextFall_def helper_defs)

lemma fallInterval_nextFallCallback:
  "fallInterval (tileFallManager (nextFallCallback chance pick w))
     = max MIN_FALL_INTERVAL (fallInterval (tileFallManager w) - FALL_ACCELERATION)"
  by (simp add: nextFallCallback_def fallInterval_scheduleNextFall accelerateFallRate_def
      fallInterval_selectRandomTile)

lemma fallInterval_start:
  "fallInterval (tileFallManager (start w)) = TILE_FALL_INTERVAL"
  by (simp add: start_def fallInterval_scheduleNextFall)

lemma runCycles_snoc:
  "runCycles (draws @ [d]) w = nextFallCallback (fst d) (snd d) (runCycles draws w)"
  by (simp add: runCycles_def case_prod_beta)

lemma fallInterval_runCycles:
  "fallInterval (tileFallManager (runCycles draws (start w)))
     = max 300 (800 - 20 * int (length draws))"
proof (induction draws rule: rev_induct)
  case Nil
  then show ?case
    by (simp add: runCycles_def fallInterval_start TILE_FALL_INTERVAL_def)
next
  case (snoc d draws)
  then show ?case
    by (simp add: runCycles_snoc fallInterval_nextFallCallback MIN_FALL_INTERVAL_def
        FALL_ACCELERATION_def)
qed

text \<open>
  Claim C5. Each cycle of the scheduler replaces the interval by
  \<open>max MIN_FALL_INTERVAL (interval - FALL_ACCELERATION)\<close>. Counted from \<^verbatim>\<open>start()\<close>,
  which sets it to 800, the interval after \<open>n\<close> cycles is \<open>max 300 (800 - 20 n)\<close>: it
  never grows from one cycle to the next, never drops below 300, and equals 300 exactly
  from the 25th cycle on.
\<close>

theorem fallInterval_acceleration:
  "fallInterval (tileFallManager (nextFallCallback chance pick w))
       = max MIN_FALL_INTERVAL (fallInterval (tileFallManager w) - FALL_ACCELERATION)
   \<and> fallInterval (tileFallManager (start w)) = 800
   \<and> fallInterval (tileFallManager (runCycles draws (start w)))
       = max 300 (800 - 20 * int (length draws))
   \<and> fallInterval (tileFallManager (runCycles (draws @ [d]) (start w)))
       \<le> fallInterval (tileFallManager (runCycles draws (start w)))
   \<and> 300 \<le> fallInterval (tileFallManager (runCycles draws (start w)))
   \<and> (fallInterval (tileFallManager (runCycles draws (start w))) = 300 \<longleftrightarrow> 25 \<le> length draws)"
proof -
  have "fallInterval (tileFallManager (runCycles (draws @ [d]) (start w)))
          = max 300 (800 - 20 * int (length (draws @ [d])))"
    by (rule fallInterval_runCycles)
  then show ?thesis
    by (auto simp: fallInterval_nextFallCallback fallInterval_start TILE_FALL_INTERVAL_def
        fallInterval_runCycles)
qed

theorem fallInterval_acceleration_witness:
  "fallInterval (tileFallManager (runCycles (replicate 24 (0, 0)) (start exampleWorld))) = 320
   \<and> fallInterval (tileFallManager (runCycles (replicate 25 (0, 0)) (start exampleWorld))) = 300
   \<and> fallInterval (tileFallManager (runCycles (replicate 26 (0, 0)) (start exampleWorld))) = 300
   \<and> fallInterval (tileFallManager (runCycles [] (start exampleWorld))) = 800"
  using fallInterval_acceleration [of 0 0 exampleWorld "replicate 24 (0, 0)" "(0, 0)"]
    fallInterval_acceleration [of 0 0 exampleWorld "replicate 25 (0, 0)" "(0, 0)"]
    fallInterval_acceleration [of 0 0 exampleWorld "replicate 26 (0, 0)" "(0, 0)"]
    fallInterval_acceleration [of 0 0 exampleWorld "[]" "(0, 0)"]
  by simp

section \<open>Tile selection\<close>

lemma activeTiles_set:
  assumes "distinct (map fst (board (gameState w)))"
  shows "set (activeTiles w)
    = {posKey. \<exists>tile. map_of (board (gameState w)) posKey = Some tile
                       \<and> isActive tile \<and> \<not> isWarning tile}"
  using assms by (force simp: activeTiles_def)

lemma activeTiles_distinct:
  "distinct (map fst (board (gameState w))) \<Longrightarrow> distinct (activeTiles w)"
  by (simp add: activeTiles_def distinct_map_filter)

lemma tilesWithPlayers_set:
  "set (tilesWithPlayers w)
     = {posKey \<in> set (activeTiles w).
          \<exists>ref \<in> set (alivePlayers (gameState w)).
            pixelKey (p_x (playerObjs w ref)) (p_y (playerObjs w ref)) w = posKey}"
proof -
  have "length (checkPlayersOnTile posKey w) > 0 \<longleftrightarrow>
          (\<exists>ref \<in> set (alivePlayers (gameState w)).
             pixelKey (p_x (playerObjs w ref)) (p_y (playerObjs w ref)) w = posKey)"
    if "posKey \<in> set (activeTiles w)" for posKey
  proof -
    from that obtain tile where "(posKey, tile) \<in> set (board (gameState w))"
      by (auto simp: activeTiles_def)
    then obtain tile' where "map_of (board (gameState w)) posKey = Some tile'"
      by (metis weak_map_of_SomeI)
    then show ?thesis
      by (auto simp: checkPlayersOnTile_def filter_empty_conv)
  qed
  then show ?thesis
    by (auto simp: tilesWithPlayers_def)
qed

text \<open>
  The index drawn. For a double \<open>u\<close> of \<open>[0, 1)\<close> the rounded product \<open>u * n\<close> stays below
  \<open>n\<close>, so the index is one of the list. The draws that give index \<open>i\<close> are those of the
  interval from \<open>i / n\<close> to \<open>(i + 1) / n\<close>, up to the rounding of the product at its two
  ends: a product just below an integer is rounded up to it.
\<close>

lemma randomIndex_less:
  assumes "0 \<le> u" and "u < 1" and "isDouble u" and "0 < n"
  shows "randomIndex u n < n"
proof -
  have "u \<le> 1 - 1 / 2 ^ 53"
    using assms(3,2) by (rule isDouble_below_one)
  then have "u * real n \<le> (1 - 1 / 2 ^ 53) * real n"
    by (intro mult_right_mono) simp_all
  then have "toDouble (u * real n) < real n"
    using assms(1,4) by (intro toDouble_less) (simp_all add: mult.commute)
  then have "\<lfloor>toDouble (u * real n)\<rfloor> < int n"
    by (simp add: floor_less_iff)
  then show ?thesis
    using assms(4) by (simp add: randomIndex_def)
qed

lemma randomIndex_floor:
  assumes "0 \<le> u"
  shows "randomIndex u n = i
     \<longleftrightarrow> real i \<le> toDouble (u * real n) \<and> toDouble (u * real n) < real i + 1"
proof -
  have "0 \<le> u * real n"
    using assms by simp
  then have "int (randomIndex u n) = \<lfloor>toDouble (u * real n)\<rfloor>"
    using toDouble_nonneg [of "u * real n"] by (simp add: randomIndex_def)
  then have "randomIndex u n = i \<longleftrightarrow> \<lfloor>toDouble (u * real n)\<rfloor> = int i"
    by auto
  then show ?thesis
    by (simp add: floor_eq_iff)
qed

lemma randomIndex_inner:
  assumes "0 \<le> u" and "i < n" and "real n \<le> 2 ^ 53"
    and "real i / real n \<le> u" and "u < (real i + 1) * (1 - 1 / 2 ^ 53) / real n"
  shows "randomIndex u n = i"
proof -
  have n: "0 < real n"
    using assms(2) by simp
  have low: "real i \<le> u * real n"
    using assms(4) n by (simp add: pos_divide_le_eq)
  have high: "u * real n < (real i + 1) * (1 - 1 / 2 ^ 53)"
    using assms(5) n by (simp add: pos_less_divide_eq)
  have "(real i + 1) * (1 - 1 / 2 ^ 53) \<le> real n * 1"
    using assms(2) by (intro mult_mono) simp_all
  also have "\<dots> \<le> 2 ^ 53"
    using assms(3) by simp
  finally have size: "\<bar>u * real n\<bar> < 2 ^ 53"
    using high low by simp
  have "of_int (int i) \<le> toDouble (u * real n)"
    using low size by (intro toDouble_ge_int) simp_all
  moreover have "toDouble (u * real n) < real i + 1"
    using low high by (intro toDouble_less) simp_all
  ultimately have "\<lfloor>toDouble (u * real n)\<rfloor> = int i"
    by (simp add: floor_eq_iff)
  then show ?thesis
    by (simp add: randomIndex_def)
qed

lemma randomIndex_outer:
  assumes "0 \<le> u" and "u < 1" and "i < n" and "real n \<le> 2 ^ 53" and "randomIndex u n = i"
  shows "real i * (1 - 1 / 2 ^ 53) / real n \<le> u \<and> u < (real i + 1) / real n"
proof -
  have n: "0 < real n"
    using assms(3) by simp
  have nonneg: "0 \<le> u * real n"
    using assms(1) by simp
  have "u * real n < 1 * real n"
    using assms(2) n by (intro mult_strict_right_mono) simp_all
  also have "real n \<le> 2 ^ 53"
    using assms(4) by simp
  finally have size: "\<bar>u * real n\<bar> < 2 ^ 53"
    using nonneg by simp
  have "int (randomIndex u n) = \<lfloor>toDouble (u * real n)\<rfloor>"
    using toDouble_nonneg [OF nonneg] by (simp add: randomIndex_def)
  then have "\<lfloor>toDouble (u * real n)\<rfloor> = int i"
    using assms(5) by simp
  then have rounded: "real i \<le> toDouble (u * real n)" "toDouble (u * real n) < real i + 1"
    by (simp_all add: floor_eq_iff)
  have high: "u * real n < real i + 1"
  proof (rule ccontr)
    assume "\<not> u * real n < real i + 1"
    then have "of_int (int i + 1) \<le> u * real n"
      by simp
    then have "of_int (int i + 1) \<le> toDouble (u * real n)"
      using size by (rule toDouble_ge_int)
    then show False
      using rounded(2) by simp
  qed
  have low: "real i * (1 - 1 / 2 ^ 53) \<le> u * real n"
  proof (cases "i = 0")
    case True
    then show ?thesis
      using nonneg by simp
  next
    case False
    show ?thesis
    proof (rule ccontr)
      assume "\<not> real i * (1 - 1 / 2 ^ 53) \<le> u * real n"
      then have "toDouble (u * real n) < real i"
        using nonneg False by (intro toDouble_less) simp_all
      then show False
        using rounded(1) by simp
    qed
  qed
  show ?thesis
    using low high n by (simp add: pos_divide_le_eq pos_less_divide_eq)
qed

text \<open>
  The rounding at work: the draw \<open>3752999689475413 / 2\<^sup>5\<^sup>2\<close>, a double just below \<open>5 / 6\<close>,
  selects index 5 of a list of six. Its product with 6 is \<open>5 - 2\<^sup>-\<^sup>5\<^sup>1\<close>, half-way between
  two doubles, and is rounded to 5.
\<close>

lemma randomIndex_tie:
  "isDouble (3752999689475413 / 2 ^ 52)
   \<and> (4::real) / 6 \<le> 3752999689475413 / 2 ^ 52
   \<and> 3752999689475413 / 2 ^ 52 < (5::real) / 6
   \<and> 3752999689475413 / 2 ^ 52 * 6 = 5 - 1 / (2::real) ^ 51
   \<and> randomIndex (3752999689475413 / 2 ^ 52) 6 = 5"
proof -
  have "toDouble (of_int 3752999689475413 * 2 powi (- 52)) = of_int 3752999689475413 * 2 powi (- 52)"
    by (rule toDouble_rep) simp_all
  then have double: "isDouble (3752999689475413 / 2 ^ 52)"
    by (simp add: isDouble_def)
  have range: "2 powi 2 \<le> \<bar>22517998136852478 / 2 ^ 52 :: real\<bar>"
    "\<bar>22517998136852478 / 2 ^ 52 :: real\<bar> < 2 powi (2 + 1)"
    by simp_all
  have "toDouble (22517998136852478 / 2 ^ 52) = 5"
    using toDouble_eval [OF range] by (simp add: round_even_def Let_def)
  then have "randomIndex (3752999689475413 / 2 ^ 52) 6 = 5"
    by (simp add: randomIndex_def)
  then show ?thesis
    using double by simp
qed

lemma isDouble_examples: "isDouble (1 / 8) \<and> isDouble (1 / 2)"
  using toDouble_rep [of 1 "- 3"] toDouble_rep [of 1 "- 1"] by (simp add: isDouble_def)

lemma randomIndex_examples:
  "randomIndex (1 / 2) (Suc (Suc 0)) = 1 \<and> randomIndex (1 / 2) (Suc (Suc (Suc 0))) = 1"
proof -
  have one: "toDouble 1 = 1"
    using toDouble_int [of 1] by simp
  have "toDouble (of_int 3 * 2 powi (- 1)) = of_int 3 * 2 powi (- 1)"
    by (rule toDouble_rep) simp_all
  then have half: "toDouble (3 / 2) = 3 / 2"
    by simp
  show ?thesis
    by (simp add: randomIndex_def one half)
qed

text \<open>
  The literal \<^verbatim>\<open>0.2\<close> is the double next to \<open>0.2\<close>; no double lies between the two, so
  for a draw the comparison with the literal is the comparison with \<open>0.2\<close>.
\<close>

lemma chance_threshold:
  assumes "isDouble chance"
  shows "chance < toDouble 0.2 \<longleftrightarrow> chance < 0.2"
proof -
  have range: "2 powi (- 3) \<le> \<bar>2 / 10 :: real\<bar>" "\<bar>2 / 10 :: real\<bar> < 2 powi (- 3 + 1)"
    by simp_all
  have literal: "toDouble (2 / 10) = 7205759403792794 / 2 ^ 55"
    using toDouble_eval [OF range] by (simp add: round_even_def Let_def)
  have "chance < 2 / 10" if below: "chance < 7205759403792794 / 2 ^ 55"
  proof (rule ccontr)
    assume "\<not> chance < 2 / 10"
    then have inside: "2 powi (- 3) \<le> \<bar>chance\<bar>" "\<bar>chance\<bar> < 2 powi (- 3 + 1)"
      using below by simp_all
    define m where "m = round_even (chance / 2 powi (- 55))"
    have chance: "chance = of_int m / 2 ^ 55"
      using assms toDouble_eval [OF inside] by (simp add: isDouble_def m_def)
    then have "(of_int m :: real) < of_int 7205759403792794"
      using below by simp
    then have "m < 7205759403792794"
      by (simp only: of_int_less_iff)
    then have "m \<le> 7205759403792793"
      by simp
    then have "(of_int m :: real) \<le> of_int 7205759403792793"
      by (simp only: of_int_le_iff)
    then have "chance < 2 / 10"
      by (simp add: chance field_simps)
    with \<open>\<not> chance < 2 / 10\<close> show False
      by simp
  qed
  moreover have "chance < 7205759403792794 / 2 ^ 55" if "chance < 2 / 10"
    using that by simp
  ultimately show ?thesis
    using literal by auto
qed

lemma selectedKey_active:
  assumes "0 \<le> pick" and "pick < 1" and "isDouble pick" and "activeTiles w \<noteq> []"
  shows "selectedKey chance pick w \<in> set (activeTiles w)"
proof (cases "length (tilesWithPlayers w) > 0 \<and> chance < 0.2")
  case True
  then have "randomIndex pick (length (tilesWithPlayers w)) < length (tilesWithPlayers w)"
    using assms by (simp add: randomIndex_less)
  then have "selectedKey chance pick w \<in> set (tilesWithPlayers w)"
    using True by (simp add: selectedKey_def)
  then show ?thesis
    by (simp add: tilesWithPlayers_def)
next
  case False
  have "randomIndex pick (length (activeTiles w)) < length (activeTiles w)"
    using assms by (simp add: randomIndex_less)
  then show ?thesis
    using False by (auto simp: selectedKey_def)
qed

lemma selectRandomTile_effect:
  assumes "activeTiles w \<noteq> []"
    and "map_of (board (gameState w)) (selectedKey chance pick w) = Some tile"
    and "isActive tile"
  shows "selectRandomTile chance pick w =
     (let posKey = selectedKey chance pick w in
      w\<lparr>gameState := (gameState w)
           \<lparr>board := AList.update posKey (tile\<lparr>warningStartTime := Some (clock w)\<rparr>)
                        (board (gameState w)),
            events := emit (TileWarning posKey) (events (gameState w))\<rparr>,
        timers := timers w @ [(nextTimerId w, clock w + 600, ExecuteFall posKey)],
        nextTimerId := nextTimerId w + 1,
        tileFallManager := (tileFallManager w)
           \<lparr>pendingFalls := AList.update posKey (nextTimerId w)
                               (pendingFalls (tileFallManager w))\<rparr>\<rparr>)"
  using assms
  by (simp add: selectRandomTile_def markTileWarning_def helper_defs Let_def startWarning_def
      TILE_WARNING_DURATION_def)

text \<open>
  Claim C6. The candidates of a cycle are the tiles that are active and not warning.
  With no candidate the cycle leaves the state as it is. Otherwise one candidate is
  selected; its tile enters the warning state and no other tile changes. The draws of
  \<^verbatim>\<open>Math.random()\<close> are the arguments \<open>chance\<close> and \<open>pick\<close>, doubles of \<open>[0, 1)\<close>: the
  selection is made among the occupied candidates exactly when there is one and
  \<open>chance < 0.2\<close>, which for a double is the comparison with the literal \<^verbatim>\<open>0.2\<close>, and
  among all candidates otherwise; the list of length \<open>n\<close> it selects from is indexed
  with the floor of the rounded product \<open>pick * n\<close>, which is below \<open>n\<close>.
  Index \<open>i\<close> is selected by every draw from \<open>i / n\<close> to \<open>(i + 1) (1 - 2\<^sup>-\<^sup>5\<^sup>3) / n\<close>, and
  by no draw below \<open>i (1 - 2\<^sup>-\<^sup>5\<^sup>3) / n\<close> or from \<open>(i + 1) / n\<close> on: the draws that select it
  are those of the interval from \<open>i / n\<close> to \<open>(i + 1) / n\<close>, up to one part in \<open>2\<^sup>5\<^sup>3\<close> at
  its ends. For draws that are uniform on \<open>[0, 1)\<close> these are the probabilities 20\%,
  80\% and \<open>1 / n\<close> of the claim, to that precision.
\<close>

theorem selectRandomTile_policy:
  assumes "0 \<le> pick" and "pick < 1" and "isDouble pick"
    and "distinct (map fst (board (gameState w)))"
  shows "set (activeTiles w)
       = {posKey. \<exists>tile. map_of (board (gameState w)) posKey = Some tile
                          \<and> isActive tile \<and> \<not> isWarning tile}
     \<and> distinct (activeTiles w)
     \<and> set (tilesWithPlayers w)
       = {posKey \<in> set (activeTiles w).
            \<exists>ref \<in> set (alivePlayers (gameState w)).
              pixelKey (p_x (playerObjs w ref)) (p_y (playerObjs w ref)) w = posKey}
     \<and> (activeTiles w = [] \<longrightarrow> selectRandomTile chance pick w = w)
     \<and> (activeTiles w \<noteq> [] \<longrightarrow>
          selectedKey chance pick w \<in> set (activeTiles w)
          \<and> (\<exists>tile. map_of (board (gameState w)) (selectedKey chance pick w) = Some tile
                \<and> board (gameState (selectRandomTile chance pick w))
                    = AList.update (selectedKey chance pick w)
                        (tile\<lparr>warningStartTime := Some (clock w)\<rparr>) (board (gameState w)))
          \<and> (\<forall>posKey. posKey \<noteq> selectedKey chance pick w \<longrightarrow>
                map_of (board (gameState (selectRandomTile chance pick w))) posKey
                  = map_of (board (gameState w)) posKey)
          \<and> emitted (events (gameState (selectRandomTile chance pick w)))
              = emitted (events (gameState w)) @ [TileWarning (selectedKey chance pick w)]
          \<and> timers (selectRandomTile chance pick w)
              = timers w
                @ [(nextTimerId w, clock w + 600, ExecuteFall (selectedKey chance pick w))]
          \<and> pendingFalls (tileFallManager (selectRandomTile chance pick w))
              = AList.update (selectedKey chance pick w) (nextTimerId w)
                  (pendingFalls (tileFallManager w)))
     \<and> (tilesWithPlayers w \<noteq> [] \<and> chance < 0.2 \<longrightarrow>
          randomIndex pick (length (tilesWithPlayers w)) < length (tilesWithPlayers w)
          \<and> selectedKey chance pick w
              = tilesWithPlayers w ! randomIndex pick (length (tilesWithPlayers w)))
     \<and> (activeTiles w \<noteq> [] \<and> \<not> (tilesWithPlayers w \<noteq> [] \<and> chance < 0.2) \<longrightarrow>
          randomIndex pick (length (activeTiles w)) < length (activeTiles w)
          \<and> selectedKey chance pick w
              = activeTiles w ! randomIndex pick (length (activeTiles w)))
     \<and> (\<forall>n i. i < n \<and> real n \<le> 2 ^ 53 \<longrightarrow>
          (randomIndex pick n = i
             \<longleftrightarrow> real i \<le> toDouble (pick * real n) \<and> toDouble (pick * real n) < real i + 1)
          \<and> (real i / real n \<le> pick \<and> pick < (real i + 1) * (1 - 1 / 2 ^ 53) / real n \<longrightarrow>
                randomIndex pick n = i)
          \<and> (randomIndex pick n = i \<longrightarrow>
                real i * (1 - 1 / 2 ^ 53) / real n \<le> pick \<and> pick < (real i + 1) / real n))
     \<and> (isDouble chance \<longrightarrow> (chance < toDouble 0.2 \<longleftrightarrow> chance < 0.2))"
proof -
  have none: "activeTiles w = [] \<longrightarrow> selectRandomTile chance pick w = w"
    by (simp add: selectRandomTile_def)
  have some: "selectedKey chance pick w \<in> set (activeTiles w)
          \<and> (\<exists>tile. map_of (board (gameState w)) (selectedKey chance pick w) = Some tile
                \<and> board (gameState (selectRandomTile chance pick w))
                    = AList.update (selectedKey chance pick w)
                        (tile\<lparr>warningStartTime := Some (clock w)\<rparr>) (board (gameState w)))
          \<and> (\<forall>posKey. posKey \<noteq> selectedKey chance pick w \<longrightarrow>
                map_of (board (gameState (selectRandomTile chance pick w))) posKey
                  = map_of (board (gameState w)) posKey)
          \<and> emitted (events (gameState (selectRandomTile chance pick w)))
              = emitted (events (gameState w)) @ [TileWarning (selectedKey chance pick w)]
          \<and> timers (selectRandomTile chance pick w)
              = timers w
                @ [(nextTimerId w, clock w + 600, ExecuteFall (selectedKey chance pick w))]
          \<and> pendingFalls (tileFallManager (selectRandomTile chance pick w))
              = AList.update (selectedKey chance pick w) (nextTimerId w)
                  (pendingFalls (tileFallManager w))"
    if nonempty: "activeTiles w \<noteq> []"
  proof -
    have sel: "selectedKey chance pick w \<in> set (activeTiles w)"
      using assms(1,2,3) nonempty by (rule selectedKey_active)
    then obtain tile where tile: "map_of (board (gameState w)) (selectedKey chance pick w) = Some tile"
      and active: "isActive tile"
      using activeTiles_set [OF assms(4)] by auto
    show ?thesis
      using sel tile
      by (simp add: selectRandomTile_effect [OF nonempty tile active] Let_def emit_def
          update_conv')
  qed
  have occupied: "tilesWithPlayers w \<noteq> [] \<and> chance < 0.2 \<longrightarrow>
          randomIndex pick (length (tilesWithPlayers w)) < length (tilesWithPlayers w)
          \<and> selectedKey chance pick w
              = tilesWithPlayers w ! randomIndex pick (length (tilesWithPlayers w))"
    using assms(1,2,3) by (simp add: randomIndex_less selectedKey_def)
  have anywhere: "activeTiles w \<noteq> [] \<and> \<not> (tilesWithPlayers w \<noteq> [] \<and> chance < 0.2) \<longrightarrow>
          randomIndex pick (length (activeTiles w)) < length (activeTiles w)
          \<and> selectedKey chance pick w
              = activeTiles w ! randomIndex pick (length (activeTiles w))"
    using assms(1,2,3) by (auto simp: randomIndex_less selectedKey_def)
  have uniform: "(randomIndex pick n = i
             \<longleftrightarrow> real i \<le> toDouble (pick * real n) \<and> toDouble (pick * real n) < real i + 1)
          \<and> (real i / real n \<le> pick \<and> pick < (real i + 1) * (1 - 1 / 2 ^ 53) / real n \<longrightarrow>
                randomIndex pick n = i)
          \<and> (randomIndex pick n = i \<longrightarrow>
                real i * (1 - 1 / 2 ^ 53) / real n \<le> pick \<and> pick < (real i + 1) / real n)"
    if "i < n" and "real n \<le> 2 ^ 53" for n i
    using assms(1,2) that randomIndex_floor [of pick n i] randomIndex_inner [of pick i n]
      randomIndex_outer [of pick i n]
    by blast
  have literal: "isDouble chance \<longrightarrow> (chance < toDouble 0.2 \<longleftrightarrow> chance < 0.2)"
    using chance_threshold [of chance] by blast
  show ?thesis
    using activeTiles_set [OF assms(4)] activeTiles_distinct [OF assms(4)]
      tilesWithPlayers_set [of w] none some occupied anywhere uniform literal
    by blast
qed

lemma examplePixelKeys:
  "pixelKey 0 0 exampleSelect = ''0,0'' \<and> pixelKey 0 60 exampleSelect = ''0,1''
   \<and> pixelKey 0 0 exampleWorld = ''0,0'' \<and> pixelKey 0 60 exampleWorld = ''0,1''"
  by (simp add: exampleSelect_def exampleWorld_def pixelKey_def pixelToAxial_def hexRound_def
      math_round_def HEX_SIZE_def Let_def toKey_def showInt_def showNat.simps digit_def)

lemma exampleSelect_candidates:
  "activeTiles exampleSelect = [''0,-1'', ''0,0'', ''0,1'']
   \<and> tilesWithPlayers exampleSelect = [''0,0'', ''0,1'']"
proof -
  have active: "activeTiles exampleSelect = [''0,-1'', ''0,0'', ''0,1'']"
    by (simp add: activeTiles_def exampleSelect_def example_defs isWarning_def startWarning_def)
  have on: "checkPlayersOnTile ''0,-1'' exampleSelect = []
      \<and> checkPlayersOnTile ''0,0'' exampleSelect = [0]
      \<and> checkPlayersOnTile ''0,1'' exampleSelect = [1]"
    using examplePixelKeys
    by (simp add: checkPlayersOnTile_def) (simp add: exampleSelect_def example_defs)
  show ?thesis
    using on by (simp add: tilesWithPlayers_def active)
qed

theorem selectRandomTile_policy_witness:
  "(0::real) \<le> 1 / 2 \<and> (1::real) / 2 < 1 \<and> isDouble (1 / 2)
   \<and> distinct (map fst (board (gameState exampleSelect)))
   \<and> activeTiles exampleSelect = [''0,-1'', ''0,0'', ''0,1'']
   \<and> tilesWithPlayers exampleSelect = [''0,0'', ''0,1'']
   \<and> selectedKey (1 / 8) (1 / 2) exampleSelect = ''0,1''
   \<and> selectedKey (1 / 2) (1 / 2) exampleSelect = ''0,0''
   \<and> emitted (events (gameState (selectRandomTile (1 / 8) (1 / 2) exampleSelect)))
        = [TileWarning ''0,1'']
   \<and> timers (selectRandomTile (1 / 8) (1 / 2) exampleSelect)
        = [(1, 1600, ExecuteFall ''0,1'')]
   \<and> pendingFalls (tileFallManager (selectRandomTile (1 / 8) (1 / 2) exampleSelect))
        = [(''0,1'', 1)]
   \<and> map_of (board (gameState (selectRandomTile (1 / 8) (1 / 2) exampleSelect))) ''0,0''
        = Some (Tile_new (HexPosition 0 0))"
proof -
  have pick: "(0::real) \<le> 1 / 2" "(1::real) / 2 < 1" "isDouble (1 / 2)"
    using isDouble_examples by simp_all
  have keys: "distinct (map fst (board (gameState exampleSelect)))"
    by (simp add: exampleSelect_def)
  have state: "emitted (events (gameState exampleSelect)) = [] \<and> timers exampleSelect = []
      \<and> nextTimerId exampleSelect = 1 \<and> clock exampleSelect = 1000
      \<and> pendingFalls (tileFallManager exampleSelect) = []"
    by (simp add: exampleSelect_def example_defs)
  have tile: "map_of (board (gameState exampleSelect)) ''0,0'' = Some (Tile_new (HexPosition 0 0))"
    by (simp add: exampleSelect_def exampleWorld_def)
  note index = randomIndex_examples
  note cands = exampleSelect_candidates
  note low = selectRandomTile_policy [OF pick keys, of "1 / 8"]
  note high = selectRandomTile_policy [OF pick keys, of "1 / 2"]
  have occupied: "tilesWithPlayers exampleSelect \<noteq> [] \<and> (1::real) / 8 < 0.2"
    using cands by simp
  have nonempty: "activeTiles exampleSelect \<noteq> []"
    using cands by simp
  have other: "activeTiles exampleSelect \<noteq> []
      \<and> \<not> (tilesWithPlayers exampleSelect \<noteq> [] \<and> (1::real) / 2 < 0.2)"
    using cands by simp
  from low occupied
  have "selectedKey (1 / 8) (1 / 2) exampleSelect
          = tilesWithPlayers exampleSelect ! randomIndex (1 / 2) (length (tilesWithPlayers exampleSelect))"
    by blast
  then have sel_low: "selectedKey (1 / 8) (1 / 2) exampleSelect = ''0,1''"
    using cands index by simp
  from high other
  have "selectedKey (1 / 2) (1 / 2) exampleSelect
          = activeTiles exampleSelect ! randomIndex (1 / 2) (length (activeTiles exampleSelect))"
    by blast
  then have sel_high: "selectedKey (1 / 2) (1 / 2) exampleSelect = ''0,0''"
    using cands index by simp
  from low nonempty
  have "emitted (events (gameState (selectRandomTile (1 / 8) (1 / 2) exampleSelect)))
          = emitted (events (gameState exampleSelect))
            @ [TileWarning (selectedKey (1 / 8) (1 / 2) exampleSelect)]
      \<and> timers (selectRandomTile (1 / 8) (1 / 2) exampleSelect)
          = timers exampleSelect
            @ [(nextTimerId exampleSelect, clock exampleSelect + 600,
                ExecuteFall (selectedKey (1 / 8) (1 / 2) exampleSelect))]
      \<and> pendingFalls (tileFallManager (selectRandomTile (1 / 8) (1 / 2) exampleSelect))
          = AList.update (selectedKey (1 / 8) (1 / 2) exampleSelect) (nextTimerId exampleSelect)
              (pendingFalls (tileFallManager exampleSelect))
      \<and> (\<forall>posKey. posKey \<noteq> selectedKey (1 / 8) (1 / 2) exampleSelect \<longrightarrow>
            map_of (board (gameState (selectRandomTile (1 / 8) (1 / 2) exampleSelect))) posKey
              = map_of (board (gameState exampleSelect)) posKey)"
    by blast
  then have effect: "emitted (events (gameState (selectRandomTile (1 / 8) (1 / 2) exampleSelect)))
          = [TileWarning ''0,1'']
      \<and> timers (selectRandomTile (1 / 8) (1 / 2) exampleSelect) = [(1, 1600, ExecuteFall ''0,1'')]
      \<and> pendingFalls (tileFallManager (selectRandomTile (1 / 8) (1 / 2) exampleSelect))
          = [(''0,1'', 1)]
      \<and> map_of (board (gameState (selectRandomTile (1 / 8) (1 / 2) exampleSelect))) ''0,0''
          = Some (Tile_new (HexPosition 0 0))"
    using state tile by (simp add: sel_low)
  show ?thesis
    using pick keys cands sel_low sel_high effect by simp
qed

section \<open>Movement\<close>

lemma pixelKey_cong:
  "centerX (gameState v) = centerX (gameState w) \<Longrightarrow> centerY (gameState v) = centerY (gameState w)
     \<Longrightarrow> pixelKey x y v = pixelKey x y w"
  by (simp add: pixelKey_def)

lemma isTileActive_cong:
  "board (gameState v) = board (gameState w) \<Longrightarrow> centerX (gameState v) = centerX (gameState w)
     \<Longrightarrow> centerY (gameState v) = centerY (gameState w)
     \<Longrightarrow> isTileActive x y v = isTileActive x y w"
  by (simp add: isTileActive_def pixelKey_def)

lemma movement_eliminates:
  assumes "\<not> isFalling (playerObjs w ref)"
    and "\<not> isTileActive (fst (candidate (playerObjs w ref) (heldKeys w) deltaTime))
            (snd (candidate (playerObjs w ref) (heldKeys w) deltaTime)) w"
  shows "updatePlayerMovement ref deltaTime w =
     eliminatePlayer ref
       (setPlayer ref
          ((playerObjs w ref)
             \<lparr>p_vx := fst (newVelocity (playerObjs w ref) (heldKeys w) deltaTime),
              p_vy := snd (newVelocity (playerObjs w ref) (heldKeys w) deltaTime),
              isFalling := True, fallStartTime := clock w\<rparr>) w)"
proof -
  have "isTileActive x y (setPlayer ref p w) = isTileActive x y w" for x y p
    by (rule isTileActive_cong) (simp_all add: setPlayer_def)
  then show ?thesis
    using assms
    by (simp add: updatePlayerMovement_def Let_def case_prod_beta startFalling_def setPlayer_def)
qed

lemma movement_commits:
  assumes "\<not> isFalling (playerObjs w ref)"
    and "isTileActive (fst (candidate (playerObjs w ref) (heldKeys w) deltaTime))
            (snd (candidate (playerObjs w ref) (heldKeys w) deltaTime)) w"
  shows "updatePlayerMovement ref deltaTime w =
     setPlayer ref
       ((playerObjs w ref)
          \<lparr>p_vx := fst (newVelocity (playerObjs w ref) (heldKeys w) deltaTime),
           p_vy := snd (newVelocity (playerObjs w ref) (heldKeys w) deltaTime),
           p_x := fst (candidate (playerObjs w ref) (heldKeys w) deltaTime),
           p_y := snd (candidate (playerObjs w ref) (heldKeys w) deltaTime)\<rparr>) w"
proof -
  have "isTileActive x y (setPlayer ref p w) = isTileActive x y w" for x y p
    by (rule isTileActive_cong) (simp_all add: setPlayer_def)
  then show ?thesis
    using assms
    by (simp add: updatePlayerMovement_def Let_def case_prod_beta setPlayer_def)
qed

text \<open>What an elimination does to the parts of the state the movement reads.\<close>

lemma eliminatePlayer_frame:
  "board (gameState (eliminatePlayer ref w)) = board (gameState w)
   \<and> centerX (gameState (eliminatePlayer ref w)) = centerX (gameState w)
   \<and> centerY (gameState (eliminatePlayer ref w)) = centerY (gameState w)
   \<and> matchPhase (gameState (eliminatePlayer ref w)) = matchPhase (gameState w)
   \<and> heldKeys (eliminatePlayer ref w) = heldKeys w
   \<and> clock (eliminatePlayer ref w) = clock w
   \<and> tileFallManager (eliminatePlayer ref w) = tileFallManager w
   \<and> alivePlayers (gameState (eliminatePlayer ref w))
        = filter (\<lambda>p. p \<noteq> ref) (alivePlayers (gameState w))
   \<and> emitted (events (gameState (eliminatePlayer ref w)))
        = emitted (events (gameState w)) @ [PlayerEliminated ref]
   \<and> playerObjs (eliminatePlayer ref w)
        = (playerObjs w)(ref := (playerObjs w ref)
             \<lparr>isAlive := False, survivalTime := clock w - gameStartTime (gameState w)\<rparr>)"
  by (simp add: eliminatePlayer_def helper_defs Let_def)

text \<open>
  One call of \<^verbatim>\<open>updatePlayerMovement\<close> for a player \<open>other\<close>: it leaves the board, the
  held keys and every other player object alone, and emits no \<^verbatim>\<open>playerEliminated\<close>
  for another player.
\<close>

lemma updatePlayerMovement_frame:
  "board (gameState (updatePlayerMovement other deltaTime w)) = board (gameState w)
   \<and> centerX (gameState (updatePlayerMovement other deltaTime w)) = centerX (gameState w)
   \<and> centerY (gameState (updatePlayerMovement other deltaTime w)) = centerY (gameState w)
   \<and> heldKeys (updatePlayerMovement other deltaTime w) = heldKeys w
   \<and> (other \<noteq> ref \<longrightarrow>
        playerObjs (updatePlayerMovement other deltaTime w) ref = playerObjs w ref
        \<and> count_list (emitted (events (gameState (updatePlayerMovement other deltaTime w))))
             (PlayerEliminated ref)
            = count_list (emitted (events (gameState w))) (PlayerEliminated ref))"
proof (cases "isFalling (playerObjs w other)")
  case True
  then show ?thesis by (simp add: updatePlayerMovement_falling)
next
  case False
  show ?thesis
  proof (cases "isTileActive (fst (candidate (playerObjs w other) (heldKeys w) deltaTime))
            (snd (candidate (playerObjs w other) (heldKeys w) deltaTime)) w")
    case True
    show ?thesis
      by (simp add: movement_commits [OF False True] setPlayer_def)
  next
    case off: False
    show ?thesis
      by (simp add: movement_eliminates [OF False off] eliminatePlayer_frame)
         (simp add: setPlayer_def)
  qed
qed

lemma updatePlayerMovement_frozen:
  assumes "isFalling (playerObjs w ref)"
  shows "playerObjs (updatePlayerMovement other deltaTime w) ref = playerObjs w ref
   \<and> count_list (emitted (events (gameState (updatePlayerMovement other deltaTime w))))
        (PlayerEliminated ref)
       = count_list (emitted (events (gameState w))) (PlayerEliminated ref)"
proof (cases "other = ref")
  case True
  then show ?thesis using assms by (simp add: updatePlayerMovement_falling)
next
  case False
  then show ?thesis using updatePlayerMovement_frame [of other deltaTime w ref] by simp
qed

lemma fold_updatePlayerMovement_frame:
  "ref \<notin> set refs \<Longrightarrow>
     board (gameState (fold (\<lambda>p v. updatePlayerMovement p deltaTime v) refs w)) = board (gameState w)
   \<and> centerX (gameState (fold (\<lambda>p v. updatePlayerMovement p deltaTime v) refs w))
        = centerX (gameState w)
   \<and> centerY (gameState (fold (\<lambda>p v. updatePlayerMovement p deltaTime v) refs w))
        = centerY (gameState w)
   \<and> heldKeys (fold (\<lambda>p v. updatePlayerMovement p deltaTime v) refs w) = heldKeys w
   \<and> playerObjs (fold (\<lambda>p v. updatePlayerMovement p deltaTime v) refs w) ref = playerObjs w ref
   \<and> count_list (emitted (events (gameState
        (fold (\<lambda>p v. updatePlayerMovement p deltaTime v) refs w)))) (PlayerEliminated ref)
       = count_list (emitted (events (gameState w))) (PlayerEliminated ref)"
proof (induction refs arbitrary: w)
  case Nil
  then show ?case by simp
next
  case (Cons a refs)
  then have "a \<noteq> ref" "ref \<notin> set refs"
    by auto
  then show ?case
    using Cons.IH [of "updatePlayerMovement a deltaTime w"]
      updatePlayerMovement_frame [of a deltaTime w ref]
    by simp
qed

lemma fold_updatePlayerMovement_frozen:
  "isFalling (playerObjs w ref) \<Longrightarrow>
     playerObjs (fold (\<lambda>p v. updatePlayerMovement p deltaTime v) refs w) ref = playerObjs w ref
   \<and> count_list (emitted (events (gameState
        (fold (\<lambda>p v. updatePlayerMovement p deltaTime v) refs w)))) (PlayerEliminated ref)
       = count_list (emitted (events (gameState w))) (PlayerEliminated ref)"
proof (induction refs arbitrary: w)
  case Nil
  then show ?case by simp
next
  case (Cons a refs)
  then show ?case
    using Cons.IH [of "updatePlayerMovement a deltaTime w"]
      updatePlayerMovement_frozen [OF Cons.prems, of a deltaTime]
    by simp
qed

text \<open>Who touches the player objects: only eliminations and the movement.\<close>

lemma playerObjs_markTileWarning [simp]:
  "playerObjs (markTileWarning posKey w) = playerObjs w"
  by (simp add: markTileWarning_def helper_defs split: option.splits)

lemma playerObjs_removeTile [simp]:
  "playerObjs (removeTile posKey w) = playerObjs w"
  by (simp add: removeTile_def helper_defs split: option.splits)

lemma playerObjs_gameOverCheck [simp]:
  "playerObjs (gameOverCheck w) = playerObjs w"
  by (simp add: gameOverCheck_def helper_defs)

lemma playerObjs_scheduleNextFall [simp]:
  "playerObjs (scheduleNextFall w) = playerObjs w"
  by (simp add: scheduleNextFall_def helper_defs)

lemma playerObjs_selectRandomTile [simp]:
  "playerObjs (selectRandomTile chance pick w) = playerObjs w"
  by (simp add: selectRandomTile_def helper_defs Let_def)

lemma playerObjs_nextFallCallback [simp]:
  "playerObjs (nextFallCallback chance pick w) = playerObjs w"
  by (simp add: nextFallCallback_def accelerateFallRate_def)

lemma playerObjs_fold_clearTimeout [simp]:
  "playerObjs (fold clearTimeout ids w) = playerObjs w"
  by (induction ids arbitrary: w) (simp_all add: clearTimeout_def)

lemma playerObjs_stop [simp]: "playerObjs (stop w) = playerObjs w"
  by (simp add: stop_def Let_def clearTimeout_def split: option.splits)

lemma playerObjs_startGame [simp]: "playerObjs (startGame w) = playerObjs w"
  by (simp add: startGame_def start_def)

lemma playerObjs_updateTileAnimations [simp]:
  "playerObjs (updateTileAnimations w) = playerObjs w"
  by (simp add: updateTileAnimations_def)

lemma fold_eliminate_place:
  "p_x (playerObjs (fold (\<lambda>ref v. eliminatePlayer ref
            (setPlayer ref (startFalling (clock v) (playerObjs v ref)) v)) refs w) ref)
     = p_x (playerObjs w ref)
   \<and> p_y (playerObjs (fold (\<lambda>ref v. eliminatePlayer ref
            (setPlayer ref (startFalling (clock v) (playerObjs v ref)) v)) refs w) ref)
     = p_y (playerObjs w ref)
   \<and> (isFalling (playerObjs w ref) \<longrightarrow>
        isFalling (playerObjs (fold (\<lambda>ref v. eliminatePlayer ref
            (setPlayer ref (startFalling (clock v) (playerObjs v ref)) v)) refs w) ref))"
proof (induction refs arbitrary: w)
  case Nil
  then show ?case by simp
next
  case (Cons a refs)
  have one: "p_x (playerObjs (eliminatePlayer a
                (setPlayer a (startFalling (clock w) (playerObjs w a)) w)) ref)
               = p_x (playerObjs w ref)
      \<and> p_y (playerObjs (eliminatePlayer a
                (setPlayer a (startFalling (clock w) (playerObjs w a)) w)) ref)
               = p_y (playerObjs w ref)
      \<and> (isFalling (playerObjs w ref) \<longrightarrow>
           isFalling (playerObjs (eliminatePlayer a
                (setPlayer a (startFalling (clock w) (playerObjs w a)) w)) ref))"
    by (simp add: eliminatePlayer_frame setPlayer_def startFalling_def)
  show ?case
    using Cons.IH [of "eliminatePlayer a (setPlayer a (startFalling (clock w) (playerObjs w a)) w)"]
      one
    by simp
qed

lemma executeFall_place:
  "p_x (playerObjs (executeFall posKey w) ref) = p_x (playerObjs w ref)
   \<and> p_y (playerObjs (executeFall posKey w) ref) = p_y (playerObjs w ref)
   \<and> (isFalling (playerObjs w ref) \<longrightarrow> isFalling (playerObjs (executeFall posKey w) ref))"
  using fold_eliminate_place
    [of "checkPlayersOnTile posKey
           (w\<lparr>tileFallManager := (tileFallManager w)
                \<lparr>pendingFalls := AList.delete posKey (pendingFalls (tileFallManager w))\<rparr>\<rparr>)"
        "w\<lparr>tileFallManager := (tileFallManager w)
                \<lparr>pendingFalls := AList.delete posKey (pendingFalls (tileFallManager w))\<rparr>\<rparr>" ref]
  by (simp add: executeFall_def Let_def)

lemma updatePlayers_frozen:
  "isFalling (playerObjs w ref) \<Longrightarrow> playerObjs (updatePlayers deltaTime w) ref = playerObjs w ref"
  by (simp add: updatePlayers_def fold_updatePlayerMovement_frozen)

lemma step_frozen:
  assumes "step w v" and "isFalling (playerObjs w ref)"
  shows "isFalling (playerObjs v ref) \<and> p_x (playerObjs v ref) = p_x (playerObjs w ref)
     \<and> p_y (playerObjs v ref) = p_y (playerObjs w ref)"
  using assms
proof (induction rule: step.induct)
  case (timerFires t w chance pick)
  show ?case
  proof (cases "snd (snd t)")
    case NextFall
    then show ?thesis using timerFires.prems by (simp add: fire_def)
  next
    case (ExecuteFall posKey)
    then show ?thesis
      using timerFires.prems
        executeFall_place [of posKey "w\<lparr>timers := filter (\<lambda>t'. fst t' \<noteq> fst t) (timers w),
          clock := max (clock w) (fst (snd t))\<rparr>" ref]
      by (simp add: fire_def)
  next
    case GameOverCheck
    then show ?thesis using timerFires.prems by (simp add: fire_def)
  qed
next
  case (frame deltaTime w)
  then show ?case by (simp add: update_def updatePlayers_frozen)
qed (simp_all add: reset_def)

lemma steps_frozen:
  assumes "step\<^sup>*\<^sup>* w v" and "isFalling (playerObjs w ref)"
  shows "isFalling (playerObjs v ref) \<and> p_x (playerObjs v ref) = p_x (playerObjs w ref)
     \<and> p_y (playerObjs v ref) = p_y (playerObjs w ref)"
  using assms
proof (induction rule: rtranclp_induct)
  case base
  then show ?case by simp
next
  case (step y z)
  then show ?case using step_frozen [of y z ref] by simp
qed

lemma updatePlayers_eliminates_once:
  assumes notFalling: "\<not> isFalling (playerObjs w ref)"
    and off: "\<not> isTileActive (fst (candidate (playerObjs w ref) (heldKeys w) deltaTime))
            (snd (candidate (playerObjs w ref) (heldKeys w) deltaTime)) w"
    and member: "ref \<in> set (alivePlayers (gameState w))"
    and phase: "matchPhase (gameState w) = InProgress"
  shows "count_list (emitted (events (gameState (updatePlayers deltaTime w)))) (PlayerEliminated ref)
       = count_list (emitted (events (gameState w))) (PlayerEliminated ref) + 1
     \<and> p_x (playerObjs (updatePlayers deltaTime w) ref) = p_x (playerObjs w ref)
     \<and> p_y (playerObjs (updatePlayers deltaTime w) ref) = p_y (playerObjs w ref)
     \<and> isFalling (playerObjs (updatePlayers deltaTime w) ref)
     \<and> \<not> isAlive (playerObjs (updatePlayers deltaTime w) ref)"
proof -
  obtain before after where split: "alivePlayers (gameState w) = before @ ref # after"
    and first: "ref \<notin> set before"
    using split_list_first [OF member] by blast
  define w1 where "w1 = fold (\<lambda>p v. updatePlayerMovement p deltaTime v) before w"
  define w2 where "w2 = updatePlayerMovement ref deltaTime w1"
  have same: "board (gameState w1) = board (gameState w)
      \<and> centerX (gameState w1) = centerX (gameState w)
      \<and> centerY (gameState w1) = centerY (gameState w)
      \<and> heldKeys w1 = heldKeys w
      \<and> playerObjs w1 ref = playerObjs w ref
      \<and> count_list (emitted (events (gameState w1))) (PlayerEliminated ref)
          = count_list (emitted (events (gameState w))) (PlayerEliminated ref)"
    unfolding w1_def using first by (rule fold_updatePlayerMovement_frame)
  have notFalling1: "\<not> isFalling (playerObjs w1 ref)"
    using notFalling same by simp
  have off1: "\<not> isTileActive (fst (candidate (playerObjs w1 ref) (heldKeys w1) deltaTime))
            (snd (candidate (playerObjs w1 ref) (heldKeys w1) deltaTime)) w1"
    using off same isTileActive_cong [of w1 w] by simp
  have turn: "count_list (emitted (events (gameState w2))) (PlayerEliminated ref)
          = count_list (emitted (events (gameState w))) (PlayerEliminated ref) + 1
      \<and> p_x (playerObjs w2 ref) = p_x (playerObjs w ref)
      \<and> p_y (playerObjs w2 ref) = p_y (playerObjs w ref)
      \<and> isFalling (playerObjs w2 ref) \<and> \<not> isAlive (playerObjs w2 ref)"
    unfolding w2_def using same
    by (simp add: movement_eliminates [OF notFalling1 off1] eliminatePlayer_frame)
       (simp add: setPlayer_def)
  have rest: "playerObjs (fold (\<lambda>p v. updatePlayerMovement p deltaTime v) after w2) ref
          = playerObjs w2 ref
      \<and> count_list (emitted (events (gameState
            (fold (\<lambda>p v. updatePlayerMovement p deltaTime v) after w2)))) (PlayerEliminated ref)
          = count_list (emitted (events (gameState w2))) (PlayerEliminated ref)"
    using turn by (intro fold_updatePlayerMovement_frozen) simp
  have "updatePlayers deltaTime w = fold (\<lambda>p v. updatePlayerMovement p deltaTime v) after w2"
    using phase by (simp add: updatePlayers_def split w1_def w2_def)
  then show ?thesis
    using turn rest by simp
qed

text \<open>
  Claim C7. Take a player that is not falling, and the candidate position the movement
  tick computes for it. If no active tile lies under the candidate (the tile is missing
  from the board or inactive), the tick leaves the player's position as it was, marks
  the player falling and not alive, takes it off the alive roster and emits
  \<^verbatim>\<open>playerEliminated\<close> for it once, also when the tick is the whole loop of
  \<^verbatim>\<open>updatePlayers\<close>; whatever happens afterwards, the player's position never changes
  again and \<^verbatim>\<open>updatePlayerMovement\<close> does nothing for it. If an active tile lies under
  the candidate, the candidate becomes the player's position. In both cases the tick
  stores the new velocity, and the candidate is the old position plus that velocity
  times the elapsed time in seconds.
\<close>

theorem updatePlayerMovement_off_tile:
  fixes w :: World and ref :: nat and deltaTime :: real
  defines "newX \<equiv> fst (candidate (playerObjs w ref) (heldKeys w) deltaTime)"
    and "newY \<equiv> snd (candidate (playerObjs w ref) (heldKeys w) deltaTime)"
  assumes "\<not> isFalling (playerObjs w ref)"
  shows "newX = p_x (playerObjs w ref)
            + p_vx (playerObjs (updatePlayerMovement ref deltaTime w) ref) * (deltaTime / 1000)
     \<and> newY = p_y (playerObjs w ref)
            + p_vy (playerObjs (updatePlayerMovement ref deltaTime w) ref) * (deltaTime / 1000)
     \<and> (\<not> isTileActive newX newY w \<longrightarrow>
            p_x (playerObjs (updatePlayerMovement ref deltaTime w) ref) = p_x (playerObjs w ref)
          \<and> p_y (playerObjs (updatePlayerMovement ref deltaTime w) ref) = p_y (playerObjs w ref)
          \<and> isFalling (playerObjs (updatePlayerMovement ref deltaTime w) ref)
          \<and> \<not> isAlive (playerObjs (updatePlayerMovement ref deltaTime w) ref)
          \<and> ref \<notin> set (alivePlayers (gameState (updatePlayerMovement ref deltaTime w)))
          \<and> emitted (events (gameState (updatePlayerMovement ref deltaTime w)))
              = emitted (events (gameState w)) @ [PlayerEliminated ref]
          \<and> (\<forall>v later. step\<^sup>*\<^sup>* (updatePlayerMovement ref deltaTime w) v \<longrightarrow>
                p_x (playerObjs v ref) = p_x (playerObjs w ref)
                \<and> p_y (playerObjs v ref) = p_y (playerObjs w ref)
                \<and> updatePlayerMovement ref later v = v)
          \<and> (ref \<in> set (alivePlayers (gameState w)) \<and> matchPhase (gameState w) = InProgress \<longrightarrow>
                count_list (emitted (events (gameState (updatePlayers deltaTime w))))
                    (PlayerEliminated ref)
                  = count_list (emitted (events (gameState w))) (PlayerEliminated ref) + 1
                \<and> p_x (playerObjs (updatePlayers deltaTime w) ref) = p_x (playerObjs w ref)
                \<and> p_y (playerObjs (updatePlayers deltaTime w) ref) = p_y (playerObjs w ref)
                \<and> isFalling (playerObjs (updatePlayers deltaTime w) ref)
                \<and> \<not> isAlive (playerObjs (updatePlayers deltaTime w) ref)))
     \<and> (isTileActive newX newY w \<longrightarrow>
            p_x (playerObjs (updatePlayerMovement ref deltaTime w) ref) = newX
          \<and> p_y (playerObjs (updatePlayerMovement ref deltaTime w) ref) = newY
          \<and> \<not> isFalling (playerObjs (updatePlayerMovement ref deltaTime w) ref)
          \<and> isAlive (playerObjs (updatePlayerMovement ref deltaTime w) ref)
              = isAlive (playerObjs w ref)
          \<and> gameState (updatePlayerMovement ref deltaTime w) = gameState w)"
proof -
  have offTile: "p_x (playerObjs (updatePlayerMovement ref deltaTime w) ref) = p_x (playerObjs w ref)
          \<and> p_y (playerObjs (updatePlayerMovement ref deltaTime w) ref) = p_y (playerObjs w ref)
          \<and> isFalling (playerObjs (updatePlayerMovement ref deltaTime w) ref)
          \<and> \<not> isAlive (playerObjs (updatePlayerMovement ref deltaTime w) ref)
          \<and> ref \<notin> set (alivePlayers (gameState (updatePlayerMovement ref deltaTime w)))
          \<and> emitted (events (gameState (updatePlayerMovement ref deltaTime w)))
              = emitted (events (gameState w)) @ [PlayerEliminated ref]
          \<and> (\<forall>v later. step\<^sup>*\<^sup>* (updatePlayerMovement ref deltaTime w) v \<longrightarrow>
                p_x (playerObjs v ref) = p_x (playerObjs w ref)
                \<and> p_y (playerObjs v ref) = p_y (playerObjs w ref)
                \<and> updatePlayerMovement ref later v = v)
          \<and> (ref \<in> set (alivePlayers (gameState w)) \<and> matchPhase (gameState w) = InProgress \<longrightarrow>
                count_list (emitted (events (gameState (updatePlayers deltaTime w))))
                    (PlayerEliminated ref)
                  = count_list (emitted (events (gameState w))) (PlayerEliminated ref) + 1
                \<and> p_x (playerObjs (updatePlayers deltaTime w) ref) = p_x (playerObjs w ref)
                \<and> p_y (playerObjs (updatePlayers deltaTime w) ref) = p_y (playerObjs w ref)
                \<and> isFalling (playerObjs (updatePlayers deltaTime w) ref)
                \<and> \<not> isAlive (playerObjs (updatePlayers deltaTime w) ref))"
    if off: "\<not> isTileActive newX newY w"
  proof -
    have off': "\<not> isTileActive (fst (candidate (playerObjs w ref) (heldKeys w) deltaTime))
            (snd (candidate (playerObjs w ref) (heldKeys w) deltaTime)) w"
      using off by (simp add: newX_def newY_def)
    note eq = movement_eliminates [OF assms(3) off']
    have now: "p_x (playerObjs (updatePlayerMovement ref deltaTime w) ref) = p_x (playerObjs w ref)
        \<and> p_y (playerObjs (updatePlayerMovement ref deltaTime w) ref) = p_y (playerObjs w ref)
        \<and> isFalling (playerObjs (updatePlayerMovement ref deltaTime w) ref)
        \<and> \<not> isAlive (playerObjs (updatePlayerMovement ref deltaTime w) ref)
        \<and> ref \<notin> set (alivePlayers (gameState (updatePlayerMovement ref deltaTime w)))
        \<and> emitted (events (gameState (updatePlayerMovement ref deltaTime w)))
            = emitted (events (gameState w)) @ [PlayerEliminated ref]"
      by (simp add: eq eliminatePlayer_frame) (simp add: setPlayer_def)
    then have falling: "isFalling (playerObjs (updatePlayerMovement ref deltaTime w) ref)"
      by simp
    have later: "\<forall>v later. step\<^sup>*\<^sup>* (updatePlayerMovement ref deltaTime w) v \<longrightarrow>
                p_x (playerObjs v ref) = p_x (playerObjs w ref)
                \<and> p_y (playerObjs v ref) = p_y (playerObjs w ref)
                \<and> updatePlayerMovement ref later v = v"
      using steps_frozen [OF _ falling] now by (simp add: updatePlayerMovement_falling)
    show ?thesis
      using now later updatePlayers_eliminates_once [OF assms(3) off', of ] by simp
  qed
  have onTile: "p_x (playerObjs (updatePlayerMovement ref deltaTime w) ref) = newX
          \<and> p_y (playerObjs (updatePlayerMovement ref deltaTime w) ref) = newY
          \<and> \<not> isFalling (playerObjs (updatePlayerMovement ref deltaTime w) ref)
          \<and> isAlive (playerObjs (updatePlayerMovement ref deltaTime w) ref)
              = isAlive (playerObjs w ref)
          \<and> gameState (updatePlayerMovement ref deltaTime w) = gameState w"
    if on: "isTileActive newX newY w"
  proof -
    have on': "isTileActive (fst (candidate (playerObjs w ref) (heldKeys w) deltaTime))
            (snd (candidate (playerObjs w ref) (heldKeys w) deltaTime)) w"
      using on by (simp add: newX_def newY_def)
    show ?thesis
      using assms(3)
      by (simp add: movement_commits [OF assms(3) on'] setPlayer_def newX_def newY_def)
  qed
  have velocity: "newX = p_x (playerObjs w ref)
            + p_vx (playerObjs (updatePlayerMovement ref deltaTime w) ref) * (deltaTime / 1000)
     \<and> newY = p_y (playerObjs w ref)
            + p_vy (playerObjs (updatePlayerMovement ref deltaTime w) ref) * (deltaTime / 1000)"
  proof (cases "isTileActive (fst (candidate (playerObjs w ref) (heldKeys w) deltaTime))
            (snd (candidate (playerObjs w ref) (heldKeys w) deltaTime)) w")
    case True
    show ?thesis
      by (simp add: movement_commits [OF assms(3) True] setPlayer_def newX_def newY_def
          candidate_def Let_def case_prod_beta)
  next
    case False
    show ?thesis
      by (simp add: movement_eliminates [OF assms(3) False] eliminatePlayer_frame setPlayer_def
          newX_def newY_def candidate_def Let_def case_prod_beta)
  qed
  show ?thesis
    using velocity offTile onTile by blast
qed

lemma exampleWorld_candidates:
  "candidate (playerObjs exampleWorld 0) (heldKeys exampleWorld) 16 = (0, 0)
   \<and> candidate (playerObjs exampleWorld 1) (heldKeys exampleWorld) 16 = (0, 60)"
  by (simp add: candidate_def newVelocity_def inputAxis_def accelerate_def PLAYER_SPEED_def
      Let_def example_defs)

lemma exampleMoving_candidates:
  "candidate (playerObjs exampleMoving 0) (heldKeys exampleMoving) 250 = (0, 50)
   \<and> candidate (playerObjs exampleMovingOn 0) (heldKeys exampleMovingOn) 250 = (0, 50)
   \<and> newVelocity (playerObjs exampleMoving 0) (heldKeys exampleMoving) 250 = (0, 200)"
proof -
  have speed: "sqrt 250000 = 500"
    by (rule real_sqrt_unique) simp_all
  show ?thesis
    by (simp add: candidate_def newVelocity_def inputAxis_def accelerate_def PLAYER_SPEED_def
        Let_def exampleMoving_def exampleMovingOn_def exampleSelect_def example_defs speed)
qed

lemma exampleMoving_tiles:
  "\<not> isTileActive 0 50 exampleMoving \<and> isTileActive 0 50 exampleMovingOn"
proof -
  have "pixelKey 0 50 exampleMoving = ''0,1'' \<and> pixelKey 0 50 exampleMovingOn = ''0,1''"
    by (simp add: exampleMoving_def exampleMovingOn_def exampleSelect_def exampleWorld_def
        pixelKey_def pixelToAxial_def hexRound_def math_round_def HEX_SIZE_def Let_def toKey_def
        showInt_def showNat.simps digit_def)
  then show ?thesis
    by (simp add: isTileActive_def)
       (simp add: exampleMoving_def exampleMovingOn_def exampleSelect_def example_defs)
qed

theorem updatePlayerMovement_off_tile_witness:
  "\<not> isFalling (playerObjs exampleMoving 0)
   \<and> p_x (playerObjs exampleMoving 0) = 0 \<and> p_y (playerObjs exampleMoving 0) = 0
   \<and> candidate (playerObjs exampleMoving 0) (heldKeys exampleMoving) 250 = (0, 50)
   \<and> \<not> isTileActive 0 50 exampleMoving
   \<and> p_x (playerObjs (updatePlayerMovement 0 250 exampleMoving) 0) = 0
   \<and> p_y (playerObjs (updatePlayerMovement 0 250 exampleMoving) 0) = 0
   \<and> p_vy (playerObjs (updatePlayerMovement 0 250 exampleMoving) 0) = 200
   \<and> isFalling (playerObjs (updatePlayerMovement 0 250 exampleMoving) 0)
   \<and> \<not> isAlive (playerObjs (updatePlayerMovement 0 250 exampleMoving) 0)
   \<and> emitted (events (gameState (updatePlayerMovement 0 250 exampleMoving))) = [PlayerEliminated 0]
   \<and> updatePlayerMovement 0 250 (updatePlayerMovement 0 250 exampleMoving)
        = updatePlayerMovement 0 250 exampleMoving
   \<and> count_list (emitted (events (gameState (updatePlayers 250 exampleMoving))))
        (PlayerEliminated 0) = 1
   \<and> p_y (playerObjs (updatePlayers 250 exampleMoving) 0) = 0
   \<and> \<not> isFalling (playerObjs exampleMovingOn 0)
   \<and> p_x (playerObjs exampleMovingOn 0) = 0 \<and> p_y (playerObjs exampleMovingOn 0) = 0
   \<and> candidate (playerObjs exampleMovingOn 0) (heldKeys exampleMovingOn) 250 = (0, 50)
   \<and> isTileActive 0 50 exampleMovingOn
   \<and> p_x (playerObjs (updatePlayerMovement 0 250 exampleMovingOn) 0) = 0
   \<and> p_y (playerObjs (updatePlayerMovement 0 250 exampleMovingOn) 0) = 50
   \<and> p_vy (playerObjs (updatePlayerMovement 0 250 exampleMovingOn) 0) = 200
   \<and> isAlive (playerObjs (updatePlayerMovement 0 250 exampleMovingOn) 0)"
proof -
  have moving: "\<not> isFalling (playerObjs exampleMoving 0)"
    "\<not> isFalling (playerObjs exampleMovingOn 0)"
    by (simp_all add: exampleMoving_def exampleMovingOn_def exampleSelect_def example_defs)
  have state: "p_x (playerObjs exampleMoving 0) = 0 \<and> p_y (playerObjs exampleMoving 0) = 0
      \<and> emitted (events (gameState exampleMoving)) = []
      \<and> 0 \<in> set (alivePlayers (gameState exampleMoving))
      \<and> matchPhase (gameState exampleMoving) = InProgress
      \<and> p_x (playerObjs exampleMovingOn 0) = 0 \<and> p_y (playerObjs exampleMovingOn 0) = 0
      \<and> isAlive (playerObjs exampleMovingOn 0)"
    by (simp add: exampleMoving_def exampleMovingOn_def exampleSelect_def example_defs)
  note off = updatePlayerMovement_off_tile [OF moving(1), of 250]
  note on = updatePlayerMovement_off_tile [OF moving(2), of 250]
  have "step\<^sup>*\<^sup>* (updatePlayerMovement 0 250 exampleMoving) (updatePlayerMovement 0 250 exampleMoving)"
    by simp
  then have frozen: "updatePlayerMovement 0 250 (updatePlayerMovement 0 250 exampleMoving)
        = updatePlayerMovement 0 250 exampleMoving"
    using off exampleMoving_candidates exampleMoving_tiles by simp
  show ?thesis
    using moving state exampleMoving_candidates exampleMoving_tiles off on frozen
    by simp
qed

section \<open>A second elimination\<close>

text \<open>
  The two callers of \<^verbatim>\<open>eliminatePlayer\<close> take the players they eliminate from the alive
  roster: \<^verbatim>\<open>executeFall\<close> from \<^verbatim>\<open>checkPlayersOnTile\<close>, which filters the roster, and
  \<^verbatim>\<open>updatePlayers\<close> from the roster itself. For a player that is not on the roster they
  leave the player object as it is and emit no \<^verbatim>\<open>playerEliminated\<close>.
\<close>

lemma fold_eliminate_other:
  "ref \<notin> set refs \<Longrightarrow>
     playerObjs (fold (\<lambda>p v. eliminatePlayer p
            (setPlayer p (startFalling (clock v) (playerObjs v p)) v)) refs w) ref
       = playerObjs w ref
   \<and> count_list (emitted (events (gameState (fold (\<lambda>p v. eliminatePlayer p
            (setPlayer p (startFalling (clock v) (playerObjs v p)) v)) refs w))))
          (PlayerEliminated ref)
       = count_list (emitted (events (gameState w))) (PlayerEliminated ref)"
proof (induction refs arbitrary: w)
  case Nil
  then show ?case by simp
next
  case (Cons a refs)
  then have other: "a \<noteq> ref" "ref \<notin> set refs"
    by auto
  have one: "playerObjs (eliminatePlayer a
                (setPlayer a (startFalling (clock w) (playerObjs w a)) w)) ref
               = playerObjs w ref
      \<and> count_list (emitted (events (gameState (eliminatePlayer a
                (setPlayer a (startFalling (clock w) (playerObjs w a)) w))))) (PlayerEliminated ref)
          = count_list (emitted (events (gameState w))) (PlayerEliminated ref)"
    using other(1) by (simp add: eliminatePlayer_frame setPlayer_def)
  show ?case
    using Cons.IH [OF other(2),
        of "eliminatePlayer a (setPlayer a (startFalling (clock w) (playerObjs w a)) w)"] one
    by simp
qed

lemma removeTile_eliminations:
  "count_list (emitted (events (gameState (removeTile posKey w)))) (PlayerEliminated ref)
     = count_list (emitted (events (gameState w))) (PlayerEliminated ref)"
  by (simp add: removeTile_def helper_defs split: option.splits)

lemma executeFall_other:
  assumes "ref \<notin> set (alivePlayers (gameState w))"
  shows "playerObjs (executeFall posKey w) ref = playerObjs w ref
     \<and> count_list (emitted (events (gameState (executeFall posKey w)))) (PlayerEliminated ref)
         = count_list (emitted (events (gameState w))) (PlayerEliminated ref)"
proof -
  define w1 where
    "w1 = w\<lparr>tileFallManager := (tileFallManager w)
                \<lparr>pendingFalls := AList.delete posKey (pendingFalls (tileFallManager w))\<rparr>\<rparr>"
  have "ref \<notin> set (checkPlayersOnTile posKey w1)"
    using assms checkPlayersOnTile_alive [of posKey w1] by (auto simp: w1_def)
  then have "playerObjs (fold (\<lambda>p v. eliminatePlayer p
            (setPlayer p (startFalling (clock v) (playerObjs v p)) v))
            (checkPlayersOnTile posKey w1) w1) ref
       = playerObjs w1 ref
   \<and> count_list (emitted (events (gameState (fold (\<lambda>p v. eliminatePlayer p
            (setPlayer p (startFalling (clock v) (playerObjs v p)) v))
            (checkPlayersOnTile posKey w1) w1))))
          (PlayerEliminated ref)
       = count_list (emitted (events (gameState w1))) (PlayerEliminated ref)"
    by (rule fold_eliminate_other)
  then show ?thesis
    by (simp add: executeFall_def Let_def removeTile_eliminations flip: w1_def)
       (simp add: w1_def)
qed

lemma updatePlayers_other:
  assumes "ref \<notin> set (alivePlayers (gameState w))"
  shows "playerObjs (updatePlayers deltaTime w) ref = playerObjs w ref
     \<and> count_list (emitted (events (gameState (updatePlayers deltaTime w)))) (PlayerEliminated ref)
         = count_list (emitted (events (gameState w))) (PlayerEliminated ref)"
  using fold_updatePlayerMovement_frame [OF assms, of deltaTime w]
  by (simp add: updatePlayers_def)

text \<open>
  Claim C1 fails as stated: \<^verbatim>\<open>eliminatePlayer\<close> has no guard. In the example state at
  time 1000, player 0 is eliminated; sixteen milliseconds later the same call is made
  again. The second call overwrites the survival time (1000 becomes 1016), emits a
  second \<^verbatim>\<open>playerEliminated\<close> notification and schedules a second game-over check.
\<close>

theorem eliminatePlayer_twice_counterexample:
  "\<not> isAlive (playerObjs exampleEliminated 0)
   \<and> survivalTime (playerObjs exampleEliminated 0) = 1000
   \<and> survivalTime (playerObjs (eliminatePlayer 0 exampleEliminated) 0) = 1016
   \<and> emitted (events (gameState exampleEliminated)) = [PlayerEliminated 0]
   \<and> emitted (events (gameState (eliminatePlayer 0 exampleEliminated)))
        = [PlayerEliminated 0, PlayerEliminated 0]
   \<and> timers exampleEliminated = [(1, 1800, GameOverCheck)]
   \<and> timers (eliminatePlayer 0 exampleEliminated)
        = [(1, 1800, GameOverCheck), (2, 1816, GameOverCheck)]"
  by (simp add: exampleEliminated_def eliminatePlayer_def helper_defs Let_def example_defs)

text \<open>
  Claim C1, amended. A call of \<^verbatim>\<open>eliminatePlayer\<close> leaves the player not alive and off
  the alive roster. On a player in that state, \<^verbatim>\<open>eliminatePlayer\<close> leaves the alive flag
  false and the alive roster, the match phase, the board, the scheduler and every other
  player as they are; it overwrites the player's survival time with the clock reading
  minus the start of the match, emits \<^verbatim>\<open>playerEliminated\<close> once more and, when at most
  one player is alive, schedules one more delayed game-over check. Neither caller makes
  such a call: \<^verbatim>\<open>checkPlayersOnTile\<close>, from which \<^verbatim>\<open>executeFall\<close> takes the players it
  eliminates, returns players of the alive roster only, and \<^verbatim>\<open>updatePlayers\<close> moves the
  players of the alive roster; for a player that is off the roster, \<^verbatim>\<open>executeFall\<close> and
  \<^verbatim>\<open>updatePlayers\<close> leave the player object as it is and emit no \<^verbatim>\<open>playerEliminated\<close>.
  \<^verbatim>\<open>updatePlayerMovement\<close>, called for a falling player, returns at once.
\<close>

theorem eliminatePlayer_again:
  assumes "\<not> isAlive (playerObjs w ref)"
    and "ref \<notin> set (alivePlayers (gameState w))"
  shows "\<not> isAlive (playerObjs (eliminatePlayer ref w) ref)
     \<and> alivePlayers (gameState (eliminatePlayer ref w)) = alivePlayers (gameState w)
     \<and> matchPhase (gameState (eliminatePlayer ref w)) = matchPhase (gameState w)
     \<and> board (gameState (eliminatePlayer ref w)) = board (gameState w)
     \<and> tileFallManager (eliminatePlayer ref w) = tileFallManager w
     \<and> (\<forall>other. other \<noteq> ref \<longrightarrow>
           playerObjs (eliminatePlayer ref w) other = playerObjs w other)
     \<and> survivalTime (playerObjs (eliminatePlayer ref w) ref)
          = clock w - gameStartTime (gameState w)
     \<and> emitted (events (gameState (eliminatePlayer ref w)))
          = emitted (events (gameState w)) @ [PlayerEliminated ref]
     \<and> timers (eliminatePlayer ref w)
          = (if length (alivePlayers (gameState w)) \<le> 1
             then timers w
                  @ [(nextTimerId w, clock w + fallDuration (playerObjs w ref), GameOverCheck)]
             else timers w)
     \<and> \<not> isAlive (playerObjs (eliminatePlayer ref before) ref)
     \<and> ref \<notin> set (alivePlayers (gameState (eliminatePlayer ref before)))
     \<and> set (checkPlayersOnTile posKey w) \<subseteq> set (alivePlayers (gameState w))
     \<and> ref \<notin> set (checkPlayersOnTile posKey w)
     \<and> playerObjs (executeFall posKey w) ref = playerObjs w ref
     \<and> count_list (emitted (events (gameState (executeFall posKey w)))) (PlayerEliminated ref)
          = count_list (emitted (events (gameState w))) (PlayerEliminated ref)
     \<and> playerObjs (updatePlayers deltaTime w) ref = playerObjs w ref
     \<and> count_list (emitted (events (gameState (updatePlayers deltaTime w)))) (PlayerEliminated ref)
          = count_list (emitted (events (gameState w))) (PlayerEliminated ref)
     \<and> (isFalling (playerObjs w ref) \<longrightarrow> updatePlayerMovement ref deltaTime w = w)"
proof -
  have "filter (\<lambda>p. p \<noteq> ref) (alivePlayers (gameState w)) = alivePlayers (gameState w)"
    using assms(2) by (rule filter_absent)
  then have again: "\<not> isAlive (playerObjs (eliminatePlayer ref w) ref)
     \<and> alivePlayers (gameState (eliminatePlayer ref w)) = alivePlayers (gameState w)
     \<and> matchPhase (gameState (eliminatePlayer ref w)) = matchPhase (gameState w)
     \<and> board (gameState (eliminatePlayer ref w)) = board (gameState w)
     \<and> tileFallManager (eliminatePlayer ref w) = tileFallManager w
     \<and> (\<forall>other. other \<noteq> ref \<longrightarrow>
           playerObjs (eliminatePlayer ref w) other = playerObjs w other)
     \<and> survivalTime (playerObjs (eliminatePlayer ref w) ref)
          = clock w - gameStartTime (gameState w)
     \<and> emitted (events (gameState (eliminatePlayer ref w)))
          = emitted (events (gameState w)) @ [PlayerEliminated ref]
     \<and> timers (eliminatePlayer ref w)
          = (if length (alivePlayers (gameState w)) \<le> 1
             then timers w
                  @ [(nextTimerId w, clock w + fallDuration (playerObjs w ref), GameOverCheck)]
             else timers w)"
    using assms(1) by (simp add: eliminatePlayer_def helper_defs Let_def)
  have first: "\<not> isAlive (playerObjs (eliminatePlayer ref before) ref)
     \<and> ref \<notin> set (alivePlayers (gameState (eliminatePlayer ref before)))"
    by (simp add: eliminatePlayer_frame)
  have callers: "set (checkPlayersOnTile posKey w) \<subseteq> set (alivePlayers (gameState w))
     \<and> ref \<notin> set (checkPlayersOnTile posKey w)"
    using assms(2) checkPlayersOnTile_alive [of posKey w] by auto
  show ?thesis
    using again first callers executeFall_other [OF assms(2), of posKey]
      updatePlayers_other [OF assms(2), of deltaTime]
      updatePlayerMovement_falling [of w ref deltaTime]
    by simp
qed

theorem eliminatePlayer_again_witness:
  "\<not> isAlive (playerObjs exampleEliminated 0)
   \<and> 0 \<notin> set (alivePlayers (gameState exampleEliminated))
   \<and> alivePlayers (gameState (eliminatePlayer 0 exampleEliminated)) = [1]
   \<and> matchPhase (gameState (eliminatePlayer 0 exampleEliminated)) = InProgress
   \<and> survivalTime (playerObjs (eliminatePlayer 0 exampleEliminated) 0) = 1016
   \<and> emitted (events (gameState (eliminatePlayer 0 exampleEliminated)))
        = [PlayerEliminated 0, PlayerEliminated 0]
   \<and> timers (eliminatePlayer 0 exampleEliminated)
        = [(1, 1800, GameOverCheck), (2, 1816, GameOverCheck)]
   \<and> pixelKey (p_x (playerObjs exampleEliminated 0)) (p_y (playerObjs exampleEliminated 0))
        exampleEliminated = ''0,0''
   \<and> checkPlayersOnTile ''0,0'' exampleEliminated = []
   \<and> survivalTime (playerObjs (executeFall ''0,0'' exampleEliminated) 0) = 1000
   \<and> count_list (emitted (events (gameState (executeFall ''0,0'' exampleEliminated))))
        (PlayerEliminated 0) = 1
   \<and> survivalTime (playerObjs (updatePlayers 16 exampleEliminated) 0) = 1000
   \<and> count_list (emitted (events (gameState (updatePlayers 16 exampleEliminated))))
        (PlayerEliminated 0) = 1"
proof -
  have dead: "\<not> isAlive (playerObjs exampleEliminated 0)"
    by (simp add: exampleEliminated_def eliminatePlayer_def helper_defs Let_def example_defs)
  have gone: "0 \<notin> set (alivePlayers (gameState exampleEliminated))"
    by (simp add: exampleEliminated_def eliminatePlayer_def helper_defs Let_def example_defs)
  have before: "alivePlayers (gameState exampleEliminated) = [1]
      \<and> matchPhase (gameState exampleEliminated) = InProgress
      \<and> clock exampleEliminated = 1016 \<and> gameStartTime (gameState exampleEliminated) = 0
      \<and> emitted (events (gameState exampleEliminated)) = [PlayerEliminated 0]
      \<and> timers exampleEliminated = [(1, 1800, GameOverCheck)]
      \<and> nextTimerId exampleEliminated = 2
      \<and> fallDuration (playerObjs exampleEliminated 0) = 800
      \<and> survivalTime (playerObjs exampleEliminated 0) = 1000
      \<and> p_x (playerObjs exampleEliminated 0) = 0 \<and> p_y (playerObjs exampleEliminated 0) = 0
      \<and> p_x (playerObjs exampleEliminated 1) = 0 \<and> p_y (playerObjs exampleEliminated 1) = 60
      \<and> board (gameState exampleEliminated) = exampleBoard"
    by (simp add: exampleEliminated_def eliminatePlayer_def helper_defs Let_def example_defs)
  have "centerX (gameState exampleEliminated) = centerX (gameState exampleWorld)"
    "centerY (gameState exampleEliminated) = centerY (gameState exampleWorld)"
    by (simp_all add: exampleEliminated_def eliminatePlayer_frame)
  then have keys: "pixelKey x y exampleEliminated = pixelKey x y exampleWorld" for x y
    by (rule pixelKey_cong)
  have place: "pixelKey (p_x (playerObjs exampleEliminated 0)) (p_y (playerObjs exampleEliminated 0))
        exampleEliminated = ''0,0''"
    using before examplePixelKeys by (simp add: keys)
  have nobody: "checkPlayersOnTile ''0,0'' exampleEliminated = []"
    using before examplePixelKeys by (simp add: checkPlayersOnTile_def keys exampleBoard_def)
  show ?thesis
    using dead gone before place nobody
      eliminatePlayer_again [OF dead gone, of exampleWorld "''0,0''" 16]
    by simp
qed

section \<open>The shatter window\<close>

lemma map_of_updateTileAnimations:
  "map_of (board (gameState (updateTileAnimations w))) posKey
     = map_option (\<lambda>tile. if isShattering tile then snd (getShatterProgress (clock w) tile) else tile)
         (map_of (board (gameState w)) posKey)"
  by (simp add: updateTileAnimations_def map_of_map)

lemma getShatterProgress_window:
  assumes "isShattering tile" and "shatterDuration tile = 400"
  shows "snd (getShatterProgress now tile)
     = (if now < shatterStartTime tile + 400 then tile else fall tile)"
  using assms by (auto simp: getShatterProgress_def Let_def min_def)

text \<open>
  Claim C10. \<^verbatim>\<open>removeTile\<close> on an active tile (with the shatter duration of 400 ms the
  constructor gives) sets the shattering flag and leaves the active flag set. A pixel
  over that tile is over an active tile right after the call, and still so after any
  frame drawn less than 400 ms after it; the first frame drawn 400 ms or more after
  the call lets the tile fall, and the pixel is then over no active tile. During the
  window, a player that is not falling and whose candidate position lies over the tile
  is not eliminated by the movement tick: the candidate becomes its position.
\<close>

theorem removeTile_shatter_window:
  assumes "map_of (board (gameState w)) posKey = Some tile"
    and "isActive tile"
    and "shatterDuration tile = 400"
  shows "map_of (board (gameState (removeTile posKey w))) posKey
       = Some (tile\<lparr>isShattering := True, shatterStartTime := clock w, warningStartTime := None\<rparr>)
     \<and> (\<forall>x y. pixelKey x y w = posKey \<longrightarrow> isTileActive x y (removeTile posKey w))
     \<and> (\<forall>now x y. now < clock w + 400 \<and> pixelKey x y w = posKey \<longrightarrow>
           isTileActive x y (updateTileAnimations ((removeTile posKey w)\<lparr>clock := now\<rparr>)))
     \<and> (\<forall>now x y. clock w + 400 \<le> now \<and> pixelKey x y w = posKey \<longrightarrow>
           \<not> isTileActive x y (updateTileAnimations ((removeTile posKey w)\<lparr>clock := now\<rparr>)))
     \<and> (\<forall>now ref deltaTime.
           now < clock w + 400 \<and> \<not> isFalling (playerObjs w ref)
           \<and> pixelKey (fst (candidate (playerObjs w ref) (heldKeys w) deltaTime))
                (snd (candidate (playerObjs w ref) (heldKeys w) deltaTime)) w = posKey \<longrightarrow>
           p_x (playerObjs (updatePlayerMovement ref deltaTime
                  (updateTileAnimations ((removeTile posKey w)\<lparr>clock := now\<rparr>))) ref)
             = fst (candidate (playerObjs w ref) (heldKeys w) deltaTime)
           \<and> p_y (playerObjs (updatePlayerMovement ref deltaTime
                  (updateTileAnimations ((removeTile posKey w)\<lparr>clock := now\<rparr>))) ref)
             = snd (candidate (playerObjs w ref) (heldKeys w) deltaTime)
           \<and> \<not> isFalling (playerObjs (updatePlayerMovement ref deltaTime
                  (updateTileAnimations ((removeTile posKey w)\<lparr>clock := now\<rparr>))) ref)
           \<and> isAlive (playerObjs (updatePlayerMovement ref deltaTime
                  (updateTileAnimations ((removeTile posKey w)\<lparr>clock := now\<rparr>))) ref)
               = isAlive (playerObjs w ref)
           \<and> alivePlayers (gameState (updatePlayerMovement ref deltaTime
                  (updateTileAnimations ((removeTile posKey w)\<lparr>clock := now\<rparr>))))
               = alivePlayers (gameState w)
           \<and> emitted (events (gameState (updatePlayerMovement ref deltaTime
                  (updateTileAnimations ((removeTile posKey w)\<lparr>clock := now\<rparr>)))))
               = emitted (events (gameState w)) @ [TileFallen posKey])"
proof -
  define shattering where
    "shattering = tile\<lparr>isShattering := True, shatterStartTime := clock w, warningStartTime := None\<rparr>"
  define frameAt where
    "frameAt now = updateTileAnimations ((removeTile posKey w)\<lparr>clock := now\<rparr>)" for now
  have removed: "removeTile posKey w
      = emitEvent (TileFallen posKey) (setTile posKey (startShatter (clock w) tile) w)"
    using assms(1) by (rule removeTile_present)
  have tileNow: "map_of (board (gameState (removeTile posKey w))) posKey = Some shattering"
    by (simp add: removed helper_defs startShatter_def update_conv' shattering_def)
  have keys: "pixelKey x y (removeTile posKey w) = pixelKey x y w"
    "pixelKey x y (frameAt now) = pixelKey x y w" for x y now
    by (simp_all add: removed helper_defs pixelKey_def frameAt_def updateTileAnimations_def)
  have activeNow: "isTileActive x y (removeTile posKey w)" if "pixelKey x y w = posKey" for x y
    using that assms(2) tileNow by (simp add: isTileActive_def keys shattering_def)
  have tileLater: "map_of (board (gameState (frameAt now))) posKey
      = Some (if now < clock w + 400 then shattering else fall shattering)" for now
    using assms(3) tileNow
    by (simp add: frameAt_def map_of_updateTileAnimations)
       (simp add: getShatterProgress_window shattering_def)
  have during: "isTileActive x y (frameAt now)"
    if "now < clock w + 400" "pixelKey x y w = posKey" for now x y
    using that assms(2) tileLater [of now] by (simp add: isTileActive_def keys shattering_def)
  have after: "\<not> isTileActive x y (frameAt now)"
    if "clock w + 400 \<le> now" "pixelKey x y w = posKey" for now x y
    using that tileLater [of now] by (simp add: isTileActive_def keys fall_def)
  have same: "playerObjs (frameAt now) = playerObjs w \<and> heldKeys (frameAt now) = heldKeys w
      \<and> alivePlayers (gameState (frameAt now)) = alivePlayers (gameState w)
      \<and> emitted (events (gameState (frameAt now)))
           = emitted (events (gameState w)) @ [TileFallen posKey]" for now
    by (simp add: frameAt_def updateTileAnimations_def removed helper_defs)
  have moves: "p_x (playerObjs (updatePlayerMovement ref deltaTime (frameAt now)) ref)
             = fst (candidate (playerObjs w ref) (heldKeys w) deltaTime)
           \<and> p_y (playerObjs (updatePlayerMovement ref deltaTime (frameAt now)) ref)
             = snd (candidate (playerObjs w ref) (heldKeys w) deltaTime)
           \<and> \<not> isFalling (playerObjs (updatePlayerMovement ref deltaTime (frameAt now)) ref)
           \<and> isAlive (playerObjs (updatePlayerMovement ref deltaTime (frameAt now)) ref)
               = isAlive (playerObjs w ref)
           \<and> alivePlayers (gameState (updatePlayerMovement ref deltaTime (frameAt now)))
               = alivePlayers (gameState w)
           \<and> emitted (events (gameState (updatePlayerMovement ref deltaTime (frameAt now))))
               = emitted (events (gameState w)) @ [TileFallen posKey]"
    if window: "now < clock w + 400" and standing: "\<not> isFalling (playerObjs w ref)"
      and over: "pixelKey (fst (candidate (playerObjs w ref) (heldKeys w) deltaTime))
                (snd (candidate (playerObjs w ref) (heldKeys w) deltaTime)) w = posKey"
    for now ref deltaTime
  proof -
    have standing': "\<not> isFalling (playerObjs (frameAt now) ref)"
      using standing same by simp
    have on: "isTileActive
        (fst (candidate (playerObjs (frameAt now) ref) (heldKeys (frameAt now)) deltaTime))
        (snd (candidate (playerObjs (frameAt now) ref) (heldKeys (frameAt now)) deltaTime))
        (frameAt now)"
      using during [OF window over] same by simp
    show ?thesis
      using same [of now] standing
      by (simp add: movement_commits [OF standing' on] setPlayer_def)
  qed
  show ?thesis
    using tileNow activeNow during after moves
    unfolding shattering_def frameAt_def by blast
qed

theorem removeTile_shatter_window_witness:
  "map_of (board (gameState exampleWorld)) ''0,0'' = Some (Tile_new (HexPosition 0 0))
   \<and> isActive (Tile_new (HexPosition 0 0))
   \<and> shatterDuration (Tile_new (HexPosition 0 0)) = 400
   \<and> pixelKey 0 0 exampleWorld = ''0,0''
   \<and> \<not> isFalling (playerObjs exampleWorld 0)
   \<and> candidate (playerObjs exampleWorld 0) (heldKeys exampleWorld) 16 = (0, 0)
   \<and> isTileActive 0 0 (removeTile ''0,0'' exampleWorld)
   \<and> isTileActive 0 0 (updateTileAnimations ((removeTile ''0,0'' exampleWorld)\<lparr>clock := 1399\<rparr>))
   \<and> \<not> isTileActive 0 0 (updateTileAnimations ((removeTile ''0,0'' exampleWorld)\<lparr>clock := 1400\<rparr>))
   \<and> isAlive (playerObjs (updatePlayerMovement 0 16
        (updateTileAnimations ((removeTile ''0,0'' exampleWorld)\<lparr>clock := 1399\<rparr>))) 0)
   \<and> emitted (events (gameState (updatePlayerMovement 0 16
        (updateTileAnimations ((removeTile ''0,0'' exampleWorld)\<lparr>clock := 1399\<rparr>)))))
        = [TileFallen ''0,0'']"
proof -
  have tile: "map_of (board (gameState exampleWorld)) ''0,0'' = Some (Tile_new (HexPosition 0 0))"
    by (simp add: exampleWorld_def exampleBoard_def)
  have active: "isActive (Tile_new (HexPosition 0 0))"
    and duration: "shatterDuration (Tile_new (HexPosition 0 0)) = 400"
    by (simp_all add: Tile_new_def)
  have state: "clock exampleWorld = 1000 \<and> \<not> isFalling (playerObjs exampleWorld 0)
      \<and> isAlive (playerObjs exampleWorld 0) \<and> emitted (events (gameState exampleWorld)) = []"
    by (simp add: example_defs)
  note window = removeTile_shatter_window [OF tile active duration]
  have "isTileActive 0 0 (removeTile ''0,0'' exampleWorld)"
    using window examplePixelKeys by blast
  moreover have "isTileActive 0 0
      (updateTileAnimations ((removeTile ''0,0'' exampleWorld)\<lparr>clock := 1399\<rparr>))"
    using window examplePixelKeys state by simp
  moreover have "\<not> isTileActive 0 0
      (updateTileAnimations ((removeTile ''0,0'' exampleWorld)\<lparr>clock := 1400\<rparr>))"
    using window examplePixelKeys state by simp
  moreover have "isAlive (playerObjs (updatePlayerMovement 0 16
        (updateTileAnimations ((removeTile ''0,0'' exampleWorld)\<lparr>clock := 1399\<rparr>))) 0)
   \<and> emitted (events (gameState (updatePlayerMovement 0 16
        (updateTileAnimations ((removeTile ''0,0'' exampleWorld)\<lparr>clock := 1399\<rparr>)))))
        = [TileFallen ''0,0'']"
    using window examplePixelKeys state exampleWorld_candidates by simp
  ultimately show ?thesis
    using tile active duration examplePixelKeys state exampleWorld_candidates by simp
qed

section \<open>The scheduler's timers\<close>

text \<open>The candidates depend on the board alone.\<close>

lemma activeTiles_cong:
  "board (gameState v) = board (gameState w) \<Longrightarrow> activeTiles v = activeTiles w"
  by (simp add: activeTiles_def)

lemma activeTiles_setTile:
  assumes "distinct (map fst (board (gameState w)))"
  shows "set (activeTiles (setTile posKey tile w))
     \<subseteq> (set (activeTiles w) - {posKey})
        \<union> (if isActive tile \<and> \<not> isWarning tile then {posKey} else {})"
proof -
  have keys: "distinct (map fst (board (gameState (setTile posKey tile w))))"
    using assms by (simp add: setTile_def distinct_update)
  have lookup: "map_of (board (gameState (setTile posKey tile w)))
      = (map_of (board (gameState w)))(posKey \<mapsto> tile)"
    by (simp add: setTile_def update_conv')
  show ?thesis
    unfolding activeTiles_set [OF keys] activeTiles_set [OF assms] lookup
    by (auto split: if_splits)
qed

lemma activeTiles_updateTileAnimations:
  "set (activeTiles (updateTileAnimations w)) \<subseteq> set (activeTiles w)"
  by (auto simp: activeTiles_def updateTileAnimations_def getShatterProgress_def fall_def
      isWarning_def Let_def split: if_splits)

lemma trackedI:
  assumes "0 < nextTimerId w"
    and "distinct (map fst (board (gameState w)))"
    and "\<And>i due cb. (i, due, cb) \<in> set (timers w) \<Longrightarrow> 0 < i \<and> i < nextTimerId w"
    and "\<And>i due. (i, due, NextFall) \<in> set (timers w) \<Longrightarrow>
           isRunning (tileFallManager w) \<and> nextFallTimeout (tileFallManager w) = Some i"
    and "\<And>i due posKey. (i, due, ExecuteFall posKey) \<in> set (timers w) \<Longrightarrow>
           map_of (pendingFalls (tileFallManager w)) posKey = Some i
           \<and> posKey \<notin> set (activeTiles w)"
    and "nextFallTimeout (tileFallManager w) \<noteq> Some 0"
  shows "tracked w"
  unfolding tracked_def
proof (intro conjI ballI allI impI)
  fix t assume t: "t \<in> set (timers w)"
  obtain i due cb where eq: "t = (i, due, cb)"
    by (cases t) auto
  show "0 < fst t" "fst t < nextTimerId w"
    using assms(3) [of i due cb] t by (simp_all add: eq)
  show "isRunning (tileFallManager w)" "nextFallTimeout (tileFallManager w) = Some (fst t)"
    if "snd (snd t) = NextFall"
    using assms(4) [of i due] t that by (simp_all add: eq)
  show "map_of (pendingFalls (tileFallManager w)) posKey = Some (fst t)"
    "posKey \<notin> set (activeTiles w)"
    if "snd (snd t) = ExecuteFall posKey" for posKey
    using assms(5) [of i due posKey] t that by (simp_all add: eq)
qed (use assms(1,2,6) in simp_all)

lemma trackedD:
  assumes "tracked w"
  shows "0 < nextTimerId w"
    and "distinct (map fst (board (gameState w)))"
    and "(i, due, cb) \<in> set (timers w) \<Longrightarrow> 0 < i \<and> i < nextTimerId w"
    and "(i, due, NextFall) \<in> set (timers w) \<Longrightarrow>
           isRunning (tileFallManager w) \<and> nextFallTimeout (tileFallManager w) = Some i"
    and "(i, due, ExecuteFall posKey) \<in> set (timers w) \<Longrightarrow>
           map_of (pendingFalls (tileFallManager w)) posKey = Some i
           \<and> posKey \<notin> set (activeTiles w)"
    and "nextFallTimeout (tileFallManager w) \<noteq> Some 0"
  using assms unfolding tracked_def by force+

lemma tracked_timers_subset:
  assumes "tracked w"
    and "set (timers v) \<subseteq> set (timers w)"
    and "nextTimerId v = nextTimerId w"
    and "tileFallManager v = tileFallManager w"
    and "distinct (map fst (board (gameState v)))"
    and "set (activeTiles v) \<subseteq> set (activeTiles w)"
  shows "tracked v"
proof (rule trackedI)
  show "0 < nextTimerId v"
    using trackedD(1) [OF assms(1)] assms(3) by simp
  show "distinct (map fst (board (gameState v)))"
    by (rule assms(5))
  show "0 < i \<and> i < nextTimerId v" if "(i, due, cb) \<in> set (timers v)" for i due cb
    using trackedD(3) [OF assms(1), of i due cb] that assms(2,3) by auto
  show "isRunning (tileFallManager v) \<and> nextFallTimeout (tileFallManager v) = Some i"
    if "(i, due, NextFall) \<in> set (timers v)" for i due
    using trackedD(4) [OF assms(1), of i due] that assms(2,4) by auto
  show "map_of (pendingFalls (tileFallManager v)) posKey = Some i
      \<and> posKey \<notin> set (activeTiles v)"
    if "(i, due, ExecuteFall posKey) \<in> set (timers v)" for i due posKey
    using trackedD(5) [OF assms(1), of i due posKey] that assms(2,4,6) by auto
  show "nextFallTimeout (tileFallManager v) \<noteq> Some 0"
    using trackedD(6) [OF assms(1)] assms(4) by simp
qed

lemma tracked_gameOverTimer:
  assumes "tracked w"
    and "timers v = timers w @ [(nextTimerId w, due, GameOverCheck)]"
    and "nextTimerId v = nextTimerId w + 1"
    and "tileFallManager v = tileFallManager w"
    and "board (gameState v) = board (gameState w)"
  shows "tracked v"
proof (rule trackedI)
  have cands: "activeTiles v = activeTiles w"
    using assms(5) by (rule activeTiles_cong)
  show "0 < nextTimerId v"
    using assms(3) by simp
  show "distinct (map fst (board (gameState v)))"
    using trackedD(2) [OF assms(1)] assms(5) by simp
  show "0 < i \<and> i < nextTimerId v" if "(i, due', cb) \<in> set (timers v)" for i due' cb
    using trackedD(3) [OF assms(1), of i due' cb] trackedD(1) [OF assms(1)] that assms(2,3)
    by auto
  show "isRunning (tileFallManager v) \<and> nextFallTimeout (tileFallManager v) = Some i"
    if "(i, due', NextFall) \<in> set (timers v)" for i due'
    using trackedD(4) [OF assms(1), of i due'] that assms(2,4) by auto
  show "map_of (pendingFalls (tileFallManager v)) posKey = Some i
      \<and> posKey \<notin> set (activeTiles v)"
    if "(i, due', ExecuteFall posKey) \<in> set (timers v)" for i due' posKey
    using trackedD(5) [OF assms(1), of i due' posKey] that assms(2,4) cands by auto
  show "nextFallTimeout (tileFallManager v) \<noteq> Some 0"
    using trackedD(6) [OF assms(1)] assms(4) by simp
qed

lemma tracked_setPlayer: "tracked (setPlayer ref player w) = tracked w"
  by (simp add: tracked_def setPlayer_def activeTiles_def)

lemma nextTimerId_eliminatePlayer:
  "nextTimerId (eliminatePlayer ref w)
     = (if length (filter (\<lambda>p. p \<noteq> ref) (alivePlayers (gameState w))) \<le> 1
        then nextTimerId w + 1 else nextTimerId w)"
  by (simp add: eliminatePlayer_def helper_defs Let_def)

lemma tracked_eliminatePlayer:
  assumes "tracked w"
  shows "tracked (eliminatePlayer ref w)"
proof (cases "length (filter (\<lambda>p. p \<noteq> ref) (alivePlayers (gameState w))) \<le> 1")
  case True
  show ?thesis
  proof (rule tracked_gameOverTimer [OF assms])
    show "timers (eliminatePlayer ref w)
        = timers w @ [(nextTimerId w, clock w + fallDuration (playerObjs w ref), GameOverCheck)]"
      using True by (simp add: eliminatePlayer_timers)
    show "nextTimerId (eliminatePlayer ref w) = nextTimerId w + 1"
      using True by (simp add: nextTimerId_eliminatePlayer)
  qed (simp_all add: eliminatePlayer_frame)
next
  case False
  have "activeTiles (eliminatePlayer ref w) = activeTiles w"
    by (rule activeTiles_cong) (simp add: eliminatePlayer_frame)
  then have "set (activeTiles (eliminatePlayer ref w)) \<subseteq> set (activeTiles w)"
    by simp
  moreover have "distinct (map fst (board (gameState (eliminatePlayer ref w))))"
    using trackedD(2) [OF assms] by (simp add: eliminatePlayer_frame)
  ultimately show ?thesis
    using False
    by (intro tracked_timers_subset [OF assms])
       (simp_all add: eliminatePlayer_timers nextTimerId_eliminatePlayer eliminatePlayer_frame)
qed

lemma tracked_updatePlayerMovement:
  assumes "tracked w"
  shows "tracked (updatePlayerMovement ref deltaTime w)"
proof (cases "isFalling (playerObjs w ref)")
  case True
  then show ?thesis using assms by (simp add: updatePlayerMovement_falling)
next
  case False
  show ?thesis
  proof (cases "isTileActive (fst (candidate (playerObjs w ref) (heldKeys w) deltaTime))
            (snd (candidate (playerObjs w ref) (heldKeys w) deltaTime)) w")
    case True
    show ?thesis
      using assms by (simp add: movement_commits [OF False True] tracked_setPlayer)
  next
    case off: False
    show ?thesis
      using assms
      by (simp add: movement_eliminates [OF False off] tracked_eliminatePlayer
          tracked_setPlayer)
  qed
qed

lemma tracked_updatePlayers:
  assumes "tracked w"
  shows "tracked (updatePlayers deltaTime w)"
proof -
  have "tracked (fold (\<lambda>p v. updatePlayerMovement p deltaTime v) refs w)" for refs
    using assms
    by (induction refs arbitrary: w) (simp_all add: tracked_updatePlayerMovement)
  then show ?thesis
    using assms by (simp add: updatePlayers_def)
qed

lemma tracked_updateTileAnimations:
  assumes "tracked w"
  shows "tracked (updateTileAnimations w)"
proof -
  have "map fst (board (gameState (updateTileAnimations w))) = map fst (board (gameState w))"
    by (simp add: updateTileAnimations_def case_prod_beta comp_def)
  then have "distinct (map fst (board (gameState (updateTileAnimations w))))"
    using trackedD(2) [OF assms] by simp
  then show ?thesis
    using activeTiles_updateTileAnimations [of w]
    by (intro tracked_timers_subset [OF assms]) (simp_all add: updateTileAnimations_def)
qed

lemma tracked_update:
  "tracked w \<Longrightarrow> tracked (update deltaTime w)"
  by (simp add: update_def tracked_updateTileAnimations tracked_updatePlayers)

lemma tracked_gameOverCheck:
  assumes "tracked w"
  shows "tracked (gameOverCheck w)"
proof -
  have "activeTiles (gameOverCheck w) = activeTiles w"
    by (rule activeTiles_cong) (simp add: gameOverCheck_def helper_defs)
  moreover have "board (gameState (gameOverCheck w)) = board (gameState w)"
    by (simp add: gameOverCheck_def helper_defs)
  ultimately show ?thesis
    using trackedD(2) [OF assms]
    by (intro tracked_timers_subset [OF assms]) (simp_all add: gameOverCheck_def helper_defs)
qed

lemma tracked_removeTimer:
  assumes "tracked w"
  shows "tracked (w\<lparr>timers := filter P (timers w), clock := now\<rparr>)"
proof -
  have "activeTiles (w\<lparr>timers := filter P (timers w), clock := now\<rparr>) = activeTiles w"
    by (rule activeTiles_cong) simp
  then show ?thesis
    using trackedD(2) [OF assms]
    by (intro tracked_timers_subset [OF assms]) simp_all
qed

lemma tracked_removeTile:
  assumes "tracked w"
    and "\<And>i due. (i, due, ExecuteFall posKey) \<notin> set (timers w)"
  shows "tracked (removeTile posKey w)"
proof (cases "map_of (board (gameState w)) posKey")
  case None
  then show ?thesis using assms(1) by (simp add: removeTile_missing)
next
  case (Some tile)
  define v where "v = removeTile posKey w"
  have v: "v = emitEvent (TileFallen posKey) (setTile posKey (startShatter (clock w) tile) w)"
    unfolding v_def using Some by (rule removeTile_present)
  have cands: "set (activeTiles v) \<subseteq> set (activeTiles w) \<union> {posKey}"
  proof -
    have "activeTiles v = activeTiles (setTile posKey (startShatter (clock w) tile) w)"
      by (rule activeTiles_cong) (simp add: v emitEvent_def)
    then show ?thesis
      using activeTiles_setTile [OF trackedD(2) [OF assms(1)], of posKey "startShatter (clock w) tile"]
      by (auto split: if_splits)
  qed
  have same: "timers v = timers w" "nextTimerId v = nextTimerId w"
    "tileFallManager v = tileFallManager w"
    by (simp_all add: v helper_defs)
  have "tracked v"
  proof (rule trackedI)
    show "0 < nextTimerId v"
      using trackedD(1) [OF assms(1)] same by simp
    show "distinct (map fst (board (gameState v)))"
      using trackedD(2) [OF assms(1)] by (simp add: v helper_defs distinct_update)
    show "0 < i \<and> i < nextTimerId v" if "(i, due, cb) \<in> set (timers v)" for i due cb
      using trackedD(3) [OF assms(1), of i due cb] that same by simp
    show "isRunning (tileFallManager v) \<and> nextFallTimeout (tileFallManager v) = Some i"
      if "(i, due, NextFall) \<in> set (timers v)" for i due
      using trackedD(4) [OF assms(1), of i due] that same by simp
    show "map_of (pendingFalls (tileFallManager v)) k = Some i \<and> k \<notin> set (activeTiles v)"
      if "(i, due, ExecuteFall k) \<in> set (timers v)" for i due k
    proof -
      have "k \<noteq> posKey"
        using that assms(2) [of i due] same by auto
      then show ?thesis
        using trackedD(5) [OF assms(1), of i due k] that same cands by auto
    qed
    show "nextFallTimeout (tileFallManager v) \<noteq> Some 0"
      using trackedD(6) [OF assms(1)] same by simp
  qed
  then show ?thesis by (simp add: v_def)
qed

lemma fold_eliminate_tracked:
  assumes "tracked w"
    and "\<And>i due. (i, due, ExecuteFall posKey) \<notin> set (timers w)"
  shows "tracked (fold (\<lambda>ref v. eliminatePlayer ref
            (setPlayer ref (startFalling (clock v) (playerObjs v ref)) v)) refs w)
     \<and> (\<forall>i due. (i, due, ExecuteFall posKey) \<notin> set (timers (fold (\<lambda>ref v. eliminatePlayer ref
            (setPlayer ref (startFalling (clock v) (playerObjs v ref)) v)) refs w)))"
  using assms
proof (induction refs arbitrary: w)
  case Nil
  then show ?case by simp
next
  case (Cons a refs)
  define w' where
    "w' = eliminatePlayer a (setPlayer a (startFalling (clock w) (playerObjs w a)) w)"
  have "tracked w'"
    unfolding w'_def using Cons.prems(1) by (simp add: tracked_eliminatePlayer tracked_setPlayer)
  moreover have "(i, due, ExecuteFall posKey) \<notin> set (timers w')" for i due
    using Cons.prems(2) [of i due]
    by (simp add: w'_def eliminatePlayer_timers) (simp add: setPlayer_def)
  ultimately show ?case
    using Cons.IH [of w'] by (simp add: w'_def)
qed

lemma tracked_executeFall:
  assumes "tracked w"
    and "map_of (pendingFalls (tileFallManager w)) posKey = Some fired"
    and "\<And>due cb. (fired, due, cb) \<notin> set (timers w)"
  shows "tracked (executeFall posKey w)"
proof -
  define w1 where
    "w1 = w\<lparr>tileFallManager := (tileFallManager w)
              \<lparr>pendingFalls := AList.delete posKey (pendingFalls (tileFallManager w))\<rparr>\<rparr>"
  have none: "(i, due, ExecuteFall posKey) \<notin> set (timers w)" for i due
    using trackedD(5) [OF assms(1), of i due posKey] assms(2,3) by auto
  have cands: "activeTiles w1 = activeTiles w"
    by (rule activeTiles_cong) (simp add: w1_def)
  have "tracked w1"
  proof (rule trackedI)
    show "0 < nextTimerId w1"
      using trackedD(1) [OF assms(1)] by (simp add: w1_def)
    show "distinct (map fst (board (gameState w1)))"
      using trackedD(2) [OF assms(1)] by (simp add: w1_def)
    show "0 < i \<and> i < nextTimerId w1" if "(i, due, cb) \<in> set (timers w1)" for i due cb
      using trackedD(3) [OF assms(1), of i due cb] that by (simp add: w1_def)
    show "isRunning (tileFallManager w1) \<and> nextFallTimeout (tileFallManager w1) = Some i"
      if "(i, due, NextFall) \<in> set (timers w1)" for i due
      using trackedD(4) [OF assms(1), of i due] that by (simp add: w1_def)
    show "map_of (pendingFalls (tileFallManager w1)) k = Some i \<and> k \<notin> set (activeTiles w1)"
      if "(i, due, ExecuteFall k) \<in> set (timers w1)" for i due k
    proof -
      have "k \<noteq> posKey"
        using that none [of i due] by (auto simp: w1_def)
      then show ?thesis
        using trackedD(5) [OF assms(1), of i due k] that cands
        by (simp add: w1_def delete_conv')
    qed
    show "nextFallTimeout (tileFallManager w1) \<noteq> Some 0"
      using trackedD(6) [OF assms(1)] by (simp add: w1_def)
  qed
  moreover have "(i, due, ExecuteFall posKey) \<notin> set (timers w1)" for i due
    using none [of i due] by (simp add: w1_def)
  ultimately have "tracked (fold (\<lambda>ref v. eliminatePlayer ref
            (setPlayer ref (startFalling (clock v) (playerObjs v ref)) v))
            (checkPlayersOnTile posKey w1) w1)
     \<and> (\<forall>i due. (i, due, ExecuteFall posKey) \<notin> set (timers (fold (\<lambda>ref v. eliminatePlayer ref
            (setPlayer ref (startFalling (clock v) (playerObjs v ref)) v))
            (checkPlayersOnTile posKey w1) w1)))"
    by (intro fold_eliminate_tracked) simp_all
  then show ?thesis
    by (simp add: executeFall_def Let_def w1_def tracked_removeTile)
qed

lemma tracked_selectRandomTile:
  assumes "tracked w" and "0 \<le> pick" and "pick < 1" and "isDouble pick"
  shows "tracked (selectRandomTile chance pick w)"
proof (cases "activeTiles w = []")
  case True
  then show ?thesis using assms(1) by (simp add: selectRandomTile_def)
next
  case False
  define posKey where "posKey = selectedKey chance pick w"
  have keys: "distinct (map fst (board (gameState w)))"
    by (rule trackedD(2) [OF assms(1)])
  have sel: "posKey \<in> set (activeTiles w)"
    unfolding posKey_def using assms(2,3,4) False by (rule selectedKey_active)
  then obtain tile where tile: "map_of (board (gameState w)) posKey = Some tile"
    and active: "isActive tile"
    using activeTiles_set [OF keys] by auto
  define v where "v = selectRandomTile chance pick w"
  have v: "v = w\<lparr>gameState := (gameState w)
           \<lparr>board := AList.update posKey (tile\<lparr>warningStartTime := Some (clock w)\<rparr>)
                        (board (gameState w)),
            events := emit (TileWarning posKey) (events (gameState w))\<rparr>,
        timers := timers w @ [(nextTimerId w, clock w + 600, ExecuteFall posKey)],
        nextTimerId := nextTimerId w + 1,
        tileFallManager := (tileFallManager w)
           \<lparr>pendingFalls := AList.update posKey (nextTimerId w)
                               (pendingFalls (tileFallManager w))\<rparr>\<rparr>"
    unfolding v_def
    using selectRandomTile_effect [OF False tile [unfolded posKey_def] active, of ]
    by (simp add: Let_def posKey_def)
  have cands: "set (activeTiles v) \<subseteq> set (activeTiles w) - {posKey}"
  proof -
    have "activeTiles v
        = activeTiles (setTile posKey (tile\<lparr>warningStartTime := Some (clock w)\<rparr>) w)"
      by (rule activeTiles_cong) (simp add: v setTile_def)
    then show ?thesis
      using activeTiles_setTile [OF keys, of posKey "tile\<lparr>warningStartTime := Some (clock w)\<rparr>"]
      by (simp add: isWarning_def)
  qed
  have "tracked v"
  proof (rule trackedI)
    show "0 < nextTimerId v"
      by (simp add: v)
    show "distinct (map fst (board (gameState v)))"
      using keys by (simp add: v distinct_update)
    show "0 < i \<and> i < nextTimerId v" if "(i, due, cb) \<in> set (timers v)" for i due cb
      using trackedD(3) [OF assms(1), of i due cb] trackedD(1) [OF assms(1)] that
      by (auto simp: v)
    show "isRunning (tileFallManager v) \<and> nextFallTimeout (tileFallManager v) = Some i"
      if "(i, due, NextFall) \<in> set (timers v)" for i due
      using trackedD(4) [OF assms(1), of i due] that by (simp add: v)
    show "map_of (pendingFalls (tileFallManager v)) k = Some i \<and> k \<notin> set (activeTiles v)"
      if timer: "(i, due, ExecuteFall k) \<in> set (timers v)" for i due k
    proof (cases "(i, due, ExecuteFall k) \<in> set (timers w)")
      case True
      then have old: "map_of (pendingFalls (tileFallManager w)) k = Some i"
        "k \<notin> set (activeTiles w)"
        using trackedD(5) [OF assms(1), of i due k] by simp_all
      then have "k \<noteq> posKey"
        using sel by auto
      then show ?thesis
        using old cands by (auto simp: v update_conv')
    next
      case False
      then have "i = nextTimerId w" "k = posKey"
        using timer by (simp_all add: v)
      then show ?thesis
        using cands by (auto simp: v update_conv')
    qed
    show "nextFallTimeout (tileFallManager v) \<noteq> Some 0"
      using trackedD(6) [OF assms(1)] by (simp add: v)
  qed
  then show ?thesis by (simp add: v_def)
qed

lemma timers_selectRandomTile_NextFall:
  "(i, due, NextFall) \<in> set (timers (selectRandomTile chance pick w))
     \<longleftrightarrow> (i, due, NextFall) \<in> set (timers w)"
  by (auto simp: selectRandomTile_def markTileWarning_def helper_defs Let_def
      split: option.splits)

lemma tracked_accelerateFallRate: "tracked (accelerateFallRate w) = tracked w"
  by (simp add: tracked_def accelerateFallRate_def activeTiles_def)

lemma tracked_scheduleNextFall:
  assumes "tracked w"
    and "\<And>i due. (i, due, NextFall) \<notin> set (timers w)"
  shows "tracked (scheduleNextFall w)"
proof (cases "isRunning (tileFallManager w)")
  case False
  then show ?thesis using assms(1) by (simp add: scheduleNextFall_def)
next
  case True
  define v where "v = scheduleNextFall w"
  have v: "v = w\<lparr>timers := timers w
                      @ [(nextTimerId w, clock w + of_int (fallInterval (tileFallManager w)), NextFall)],
                  nextTimerId := nextTimerId w + 1,
                  tileFallManager := (tileFallManager w)\<lparr>nextFallTimeout := Some (nextTimerId w)\<rparr>\<rparr>"
    using True by (simp add: v_def scheduleNextFall_def setTimeout_def)
  have cands: "activeTiles v = activeTiles w"
    by (rule activeTiles_cong) (simp add: v)
  have "tracked v"
  proof (rule trackedI)
    show "0 < nextTimerId v"
      by (simp add: v)
    show "distinct (map fst (board (gameState v)))"
      using trackedD(2) [OF assms(1)] by (simp add: v)
    show "0 < i \<and> i < nextTimerId v" if "(i, due, cb) \<in> set (timers v)" for i due cb
      using trackedD(3) [OF assms(1), of i due cb] trackedD(1) [OF assms(1)] that
      by (auto simp: v)
    show "isRunning (tileFallManager v) \<and> nextFallTimeout (tileFallManager v) = Some i"
      if "(i, due, NextFall) \<in> set (timers v)" for i due
      using assms(2) [of i due] that True by (auto simp: v)
    show "map_of (pendingFalls (tileFallManager v)) k = Some i \<and> k \<notin> set (activeTiles v)"
      if "(i, due, ExecuteFall k) \<in> set (timers v)" for i due k
      using trackedD(5) [OF assms(1), of i due k] that cands by (auto simp: v)
    show "nextFallTimeout (tileFallManager v) \<noteq> Some 0"
      using trackedD(1) [OF assms(1)] by (simp add: v)
  qed
  then show ?thesis by (simp add: v_def)
qed

lemma tracked_nextFallCallback:
  assumes "tracked w" and "0 \<le> pick" and "pick < 1" and "isDouble pick"
    and "\<And>i due. (i, due, NextFall) \<notin> set (timers w)"
  shows "tracked (nextFallCallback chance pick w)"
proof -
  have "tracked (accelerateFallRate (selectRandomTile chance pick w))"
    using assms(1-4) by (simp add: tracked_accelerateFallRate tracked_selectRandomTile)
  moreover have "(i, due, NextFall)
      \<notin> set (timers (accelerateFallRate (selectRandomTile chance pick w)))" for i due
    using assms(5) [of i due]
    by (simp add: accelerateFallRate_def timers_selectRandomTile_NextFall)
  ultimately show ?thesis
    unfolding nextFallCallback_def by (rule tracked_scheduleNextFall)
qed

lemma tracked_fire:
  assumes "tracked w" and "t \<in> set (timers w)" and "0 \<le> pick" and "pick < 1"
    and "isDouble pick"
  shows "tracked (fire t chance pick w)"
proof -
  obtain fired due cb where t: "t = (fired, due, cb)"
    by (cases t) auto
  define w0 where
    "w0 = w\<lparr>timers := filter (\<lambda>t'. fst t' \<noteq> fst t) (timers w),
            clock := max (clock w) (fst (snd t))\<rparr>"
  have w0: "tracked w0"
    unfolding w0_def using assms(1) by (rule tracked_removeTimer)
  have gone: "(fired, due', cb') \<notin> set (timers w0)" for due' cb'
    by (simp add: w0_def t)
  have older: "t' \<in> set (timers w)" if "t' \<in> set (timers w0)" for t'
    using that by (simp add: w0_def)
  show ?thesis
  proof (cases cb)
    case NextFall
    have "(i, due', NextFall) \<notin> set (timers w0)" for i due'
    proof
      assume timer: "(i, due', NextFall) \<in> set (timers w0)"
      then have "nextFallTimeout (tileFallManager w) = Some i"
        using trackedD(4) [OF assms(1), of i due'] older by blast
      moreover have "nextFallTimeout (tileFallManager w) = Some fired"
        using trackedD(4) [OF assms(1), of fired due] assms(2) by (simp add: t NextFall)
      ultimately show False
        using timer gone by simp
    qed
    then have "tracked (nextFallCallback chance pick w0)"
      using w0 assms(3,4,5) by (intro tracked_nextFallCallback) simp_all
    then show ?thesis
      by (simp add: fire_def t NextFall w0_def)
  next
    case (ExecuteFall posKey)
    have "map_of (pendingFalls (tileFallManager w0)) posKey = Some fired"
      using trackedD(5) [OF assms(1), of fired due posKey] assms(2)
      by (simp add: t ExecuteFall w0_def)
    then have "tracked (executeFall posKey w0)"
      using w0 gone by (intro tracked_executeFall) simp_all
    then show ?thesis
      by (simp add: fire_def t ExecuteFall w0_def)
  next
    case GameOverCheck
    then show ?thesis
      using tracked_gameOverCheck [OF w0] by (simp add: fire_def t w0_def)
  qed
qed

lemma fold_clearTimeout:
  "fold clearTimeout ids w = w\<lparr>timers := filter (\<lambda>t. fst t \<notin> set ids) (timers w)\<rparr>"
proof (induction ids arbitrary: w)
  case Nil
  then show ?case by simp
next
  case (Cons a ids)
  have "fold clearTimeout (a # ids) w = fold clearTimeout ids (clearTimeout a w)"
    by simp
  also have "\<dots> = (clearTimeout a w)
      \<lparr>timers := filter (\<lambda>t. fst t \<notin> set ids) (timers (clearTimeout a w))\<rparr>"
    by (rule Cons.IH)
  also have "\<dots> = w\<lparr>timers := filter (\<lambda>t. fst t \<notin> set (a # ids)) (timers w)\<rparr>"
    by (simp add: clearTimeout_def)
  finally show ?case .
qed

text \<open>What \<^verbatim>\<open>stop\<close> does to the rest of the state: nothing.\<close>

lemma stop_frame:
  "gameState (stop w) = gameState w \<and> playerObjs (stop w) = playerObjs w
   \<and> heldKeys (stop w) = heldKeys w \<and> clock (stop w) = clock w
   \<and> nextTimerId (stop w) = nextTimerId w
   \<and> set (timers (stop w)) \<subseteq> set (timers w)
   \<and> \<not> isRunning (tileFallManager (stop w))
   \<and> pendingFalls (tileFallManager (stop w)) = []
   \<and> fallInterval (tileFallManager (stop w)) = fallInterval (tileFallManager w)"
  by (auto simp: stop_def Let_def fold_clearTimeout clearTimeout_def split: option.splits)

lemma stop_stopped:
  assumes "tracked w"
  shows "stopped (stop w)"
proof -
  have handle: "nextFallTimeout (tileFallManager (stop w)) = None"
    using trackedD(6) [OF assms]
    by (auto simp: stop_def Let_def fold_clearTimeout clearTimeout_def split: option.splits)
  have "cb = GameOverCheck" if timer: "(i, due, cb) \<in> set (timers (stop w))" for i due cb
  proof (cases cb)
    case NextFall
    then have "(i, due, NextFall) \<in> set (timers w)"
      using timer stop_frame [of w] by auto
    then have "nextFallTimeout (tileFallManager w) = Some i" "0 < i"
      using trackedD(4) [OF assms, of i due] trackedD(3) [OF assms, of i due NextFall] by simp_all
    then have "(i, due, NextFall) \<notin> set (timers (stop w))"
      by (simp add: stop_def Let_def fold_clearTimeout clearTimeout_def)
    then show ?thesis
      using timer NextFall by simp
  next
    case (ExecuteFall posKey)
    then have "(i, due, ExecuteFall posKey) \<in> set (timers w)"
      using timer stop_frame [of w] by auto
    then have "map_of (pendingFalls (tileFallManager w)) posKey = Some i"
      using trackedD(5) [OF assms, of i due posKey] by simp
    then have "i \<in> snd ` set (pendingFalls (tileFallManager w))"
      by (metis map_of_SomeD image_eqI snd_conv)
    then have "(i, due, ExecuteFall posKey) \<notin> set (timers (stop w))"
      by (auto simp: stop_def Let_def fold_clearTimeout clearTimeout_def split: option.splits)
    then show ?thesis
      using timer ExecuteFall by simp
  next
    case GameOverCheck
    then show ?thesis .
  qed
  then show ?thesis
    using handle stop_frame [of w] unfolding stopped_def by auto
qed

lemma tracked_stop:
  assumes "tracked w"
  shows "tracked (stop w)"
proof (rule trackedI)
  note stopped = stop_stopped [OF assms, unfolded stopped_def]
  show "0 < nextTimerId (stop w)"
    using trackedD(1) [OF assms] stop_frame [of w] by simp
  show "distinct (map fst (board (gameState (stop w))))"
    using trackedD(2) [OF assms] stop_frame [of w] by simp
  show "0 < i \<and> i < nextTimerId (stop w)" if "(i, due, cb) \<in> set (timers (stop w))" for i due cb
    using trackedD(3) [OF assms, of i due cb] that stop_frame [of w] by auto
  show "isRunning (tileFallManager (stop w)) \<and> nextFallTimeout (tileFallManager (stop w)) = Some i"
    if "(i, due, NextFall) \<in> set (timers (stop w))" for i due
    using that stopped by force
  show "map_of (pendingFalls (tileFallManager (stop w))) k = Some i
      \<and> k \<notin> set (activeTiles (stop w))"
    if "(i, due, ExecuteFall k) \<in> set (timers (stop w))" for i due k
    using that stopped by force
  show "nextFallTimeout (tileFallManager (stop w)) \<noteq> Some 0"
    using stopped by simp
qed

lemma stop_idempotent:
  assumes "stopped w"
  shows "stop w = w"
proof -
  have "(tileFallManager w)\<lparr>isRunning := False\<rparr> = tileFallManager w"
    "(tileFallManager w)\<lparr>pendingFalls := []\<rparr> = tileFallManager w"
    using assms by (simp_all add: stopped_def)
  then show ?thesis
    using assms by (simp add: stop_def stopped_def Let_def)
qed

lemma tracked_startGame:
  assumes "tracked w" and "\<not> isRunning (tileFallManager w)"
  shows "tracked (startGame w)"
proof -
  define w1 where
    "w1 = w\<lparr>gameState := (gameState w)\<lparr>matchPhase := InProgress, gameStartTime := clock w\<rparr>,
            tileFallManager := (tileFallManager w)
              \<lparr>isRunning := True, fallInterval := TILE_FALL_INTERVAL\<rparr>\<rparr>"
  have none: "(i, due, NextFall) \<notin> set (timers w)" for i due
    using trackedD(4) [OF assms(1), of i due] assms(2) by auto
  have cands: "activeTiles w1 = activeTiles w"
    by (rule activeTiles_cong) (simp add: w1_def)
  have "tracked w1"
  proof (rule trackedI)
    show "0 < nextTimerId w1"
      using trackedD(1) [OF assms(1)] by (simp add: w1_def)
    show "distinct (map fst (board (gameState w1)))"
      using trackedD(2) [OF assms(1)] by (simp add: w1_def)
    show "0 < i \<and> i < nextTimerId w1" if "(i, due, cb) \<in> set (timers w1)" for i due cb
      using trackedD(3) [OF assms(1), of i due cb] that by (simp add: w1_def)
    show "isRunning (tileFallManager w1) \<and> nextFallTimeout (tileFallManager w1) = Some i"
      if "(i, due, NextFall) \<in> set (timers w1)" for i due
      using none [of i due] that by (simp add: w1_def)
    show "map_of (pendingFalls (tileFallManager w1)) k = Some i \<and> k \<notin> set (activeTiles w1)"
      if "(i, due, ExecuteFall k) \<in> set (timers w1)" for i due k
      using trackedD(5) [OF assms(1), of i due k] that cands by (simp add: w1_def)
    show "nextFallTimeout (tileFallManager w1) \<noteq> Some 0"
      using trackedD(6) [OF assms(1)] by (simp add: w1_def)
  qed
  moreover have "(i, due, NextFall) \<notin> set (timers w1)" for i due
    using none [of i due] by (simp add: w1_def)
  ultimately have "tracked (scheduleNextFall w1)"
    by (rule tracked_scheduleNextFall)
  then show ?thesis
    by (simp add: startGame_def start_def w1_def)
qed

lemma tracked_reset:
  assumes "tracked w"
  shows "tracked (reset w)"
  by (rule tracked_timers_subset [OF assms]) (simp_all add: reset_def activeTiles_def)

lemma tracked_step:
  assumes "step w v" and "tracked w"
  shows "tracked v"
  using assms
proof (induction rule: step.induct)
  case (passTime w now)
  then show ?case by (simp add: tracked_def activeTiles_def)
next
  case (timerFires t w chance pick)
  then show ?case by (simp add: tracked_fire)
next
  case (frame deltaTime w)
  then show ?case by (simp add: tracked_update)
next
  case (keyEvent w held)
  then show ?case by (simp add: tracked_def activeTiles_def)
next
  case (gameStarts w)
  then show ?case by (simp add: tracked_startGame)
next
  case (schedulerStops w)
  then show ?case by (simp add: tracked_stop)
next
  case (restart w)
  then show ?case by (simp add: tracked_reset)
qed

lemma tracked_fresh: "fresh w \<Longrightarrow> tracked w"
  by (simp add: fresh_def tracked_def TileFallManager_new_def)

lemma tracked_reachable:
  assumes "reachable w"
  shows "tracked w"
proof -
  obtain w0 where "fresh w0" and run: "step\<^sup>*\<^sup>* w0 w"
    using assms by (auto simp: reachable_def)
  then have "tracked w0"
    by (simp add: tracked_fresh)
  with run show ?thesis
    by (induction rule: rtranclp_induct) (auto intro: tracked_step)
qed

text \<open>Once the scheduler is stopped, time advancing on its own changes no tile.\<close>

lemma stopped_advance:
  assumes "advance w v" and "stopped w"
  shows "stopped v
     \<and> board (gameState v) = board (gameState w)
     \<and> tileFallManager v = tileFallManager w
     \<and> tileNotifications v = tileNotifications w"
  using assms
proof (induction rule: advance.induct)
  case (clockMoves w now)
  then show ?case by (simp add: stopped_def tileNotifications_def)
next
  case (timerRuns t w chance pick)
  then have "snd (snd t) = GameOverCheck"
    by (simp add: stopped_def)
  then show ?case
    using timerRuns.prems
    by (auto simp: fire_gameOverCheck gameOverCheck_def helper_defs stopped_def
        tileNotifications_def)
qed

lemma stopped_advances:
  assumes "advance\<^sup>*\<^sup>* w v" and "stopped w"
  shows "stopped v
     \<and> board (gameState v) = board (gameState w)
     \<and> tileFallManager v = tileFallManager w
     \<and> tileNotifications v = tileNotifications w"
  using assms
proof (induction rule: rtranclp_induct)
  case base
  then show ?case by simp
next
  case (step y z)
  then show ?case
    using stopped_advance [of y z] by simp
qed

text \<open>Frames drawn after the stop can only let shattering tiles fall.\<close>

lemma onlyFallen_refl: "onlyFallen tiles tiles"
  by (simp add: onlyFallen_def list_all2_same)

lemma onlyFallen_trans:
  assumes "onlyFallen a b" and "onlyFallen b c"
  shows "onlyFallen a c"
proof -
  have "fall (fall tile) = fall tile" for tile
    by (simp add: fall_def)
  then show ?thesis
    unfolding onlyFallen_def
    by (intro list_all2_trans [OF _ assms(1) [unfolded onlyFallen_def]
          assms(2) [unfolded onlyFallen_def]]) auto
qed

lemma onlyFallen_updateTileAnimations:
  "onlyFallen (board (gameState w)) (board (gameState (updateTileAnimations w)))"
  by (auto simp: onlyFallen_def updateTileAnimations_def list_all2_map2 list_all2_same
      getShatterProgress_def Let_def)

lemma stopped_updatePlayerMovement:
  assumes "stopped w"
  shows "stopped (updatePlayerMovement ref deltaTime w)
     \<and> board (gameState (updatePlayerMovement ref deltaTime w)) = board (gameState w)
     \<and> tileFallManager (updatePlayerMovement ref deltaTime w) = tileFallManager w
     \<and> tileNotifications (updatePlayerMovement ref deltaTime w) = tileNotifications w"
proof (cases "isFalling (playerObjs w ref)")
  case True
  then show ?thesis using assms by (simp add: updatePlayerMovement_falling)
next
  case False
  show ?thesis
  proof (cases "isTileActive (fst (candidate (playerObjs w ref) (heldKeys w) deltaTime))
            (snd (candidate (playerObjs w ref) (heldKeys w) deltaTime)) w")
    case True
    show ?thesis
      using assms
      by (simp add: movement_commits [OF False True] setPlayer_def stopped_def
          tileNotifications_def)
  next
    case off: False
    show ?thesis
      using assms
      by (auto simp: movement_eliminates [OF False off] eliminatePlayer_frame
          eliminatePlayer_timers stopped_def tileNotifications_def setPlayer_def)
  qed
qed

lemma stopped_updatePlayers:
  assumes "stopped w"
  shows "stopped (updatePlayers deltaTime w)
     \<and> board (gameState (updatePlayers deltaTime w)) = board (gameState w)
     \<and> tileFallManager (updatePlayers deltaTime w) = tileFallManager w
     \<and> tileNotifications (updatePlayers deltaTime w) = tileNotifications w"
proof -
  have "stopped (fold (\<lambda>p v. updatePlayerMovement p deltaTime v) refs w)
     \<and> board (gameState (fold (\<lambda>p v. updatePlayerMovement p deltaTime v) refs w))
         = board (gameState w)
     \<and> tileFallManager (fold (\<lambda>p v. updatePlayerMovement p deltaTime v) refs w)
         = tileFallManager w
     \<and> tileNotifications (fold (\<lambda>p v. updatePlayerMovement p deltaTime v) refs w)
         = tileNotifications w" for refs
    using assms
  proof (induction refs arbitrary: w)
    case Nil
    then show ?case by simp
  next
    case (Cons a refs)
    then show ?case
      using stopped_updatePlayerMovement [OF Cons.prems, of a deltaTime]
        Cons.IH [of "updatePlayerMovement a deltaTime w"]
      by simp
  qed
  then show ?thesis
    using assms by (simp add: updatePlayers_def)
qed

lemma stopped_update:
  assumes "stopped w"
  shows "stopped (update deltaTime w)
     \<and> onlyFallen (board (gameState w)) (board (gameState (update deltaTime w)))
     \<and> tileFallManager (update deltaTime w) = tileFallManager w
     \<and> tileNotifications (update deltaTime w) = tileNotifications w"
proof -
  define w1 where
    "w1 = (if matchPhase (gameState w) = InProgress then updatePlayers deltaTime w else w)"
  have moved: "stopped w1 \<and> board (gameState w1) = board (gameState w)
      \<and> tileFallManager w1 = tileFallManager w \<and> tileNotifications w1 = tileNotifications w"
    using stopped_updatePlayers [OF assms, of deltaTime] assms by (simp add: w1_def)
  then have "stopped w1"
    by simp
  then have drawn: "stopped (updateTileAnimations w1)
      \<and> tileFallManager (updateTileAnimations w1) = tileFallManager w1
      \<and> tileNotifications (updateTileAnimations w1) = tileNotifications w1"
    by (simp add: updateTileAnimations_def stopped_def tileNotifications_def)
  have "onlyFallen (board (gameState w)) (board (gameState (updateTileAnimations w1)))"
    using onlyFallen_updateTileAnimations [of w1] moved by simp
  then show ?thesis
    using moved drawn by (simp add: update_def w1_def)
qed

lemma stopped_continue:
  assumes "continues w v" and "stopped w"
  shows "stopped v
     \<and> onlyFallen (board (gameState w)) (board (gameState v))
     \<and> tileFallManager v = tileFallManager w
     \<and> tileNotifications v = tileNotifications w"
  using assms
proof (induction rule: continues.induct)
  case (timeAdvances w v)
  then show ?case
    using stopped_advance [of w v] by (simp add: onlyFallen_refl)
next
  case (frameDrawn deltaTime w)
  then show ?case by (simp add: stopped_update)
next
  case (keyChanges w held)
  then show ?case by (simp add: stopped_def tileNotifications_def onlyFallen_refl)
qed

lemma stopped_continues:
  assumes "continues\<^sup>*\<^sup>* w v" and "stopped w"
  shows "stopped v
     \<and> onlyFallen (board (gameState w)) (board (gameState v))
     \<and> tileFallManager v = tileFallManager w
     \<and> tileNotifications v = tileNotifications w"
  using assms
proof (induction rule: rtranclp_induct)
  case base
  then show ?case by (simp add: onlyFallen_refl)
next
  case (step y z)
  then show ?case
    using stopped_continue [of y z] onlyFallen_trans [of "board (gameState w)"
        "board (gameState y)" "board (gameState z)"]
    by simp
qed

text \<open>
  Claim C2. Take any state the program reaches and call \<^verbatim>\<open>stop()\<close>. The call itself
  changes no tile. From then on, however far time advances and whichever pending
  timers fire (the run from \<open>stop w\<close> to \<open>v\<close>), the board stays as it was and no
  \<^verbatim>\<open>tileWarning\<close> or \<^verbatim>\<open>tileFallen\<close> is emitted: the only timers left are delayed
  game-over checks. The scheduler's bookkeeping is empty (not running, no loop timer, no
  pending fall), and a second \<^verbatim>\<open>stop()\<close> in any of these states changes nothing. When
  frames are drawn and keys pressed as well (the run from \<open>stop w\<close> to \<open>u\<close>), the same
  holds, except that a tile that was shattering at the stop may finish its animation
  and fall: no tile is marked warning or made to shatter.
\<close>

theorem stop_cancels_timers:
  assumes "reachable w"
    and "advance\<^sup>*\<^sup>* (stop w) v"
    and "continues\<^sup>*\<^sup>* (stop w) u"
  shows "board (gameState (stop w)) = board (gameState w)
     \<and> tileNotifications (stop w) = tileNotifications w
     \<and> board (gameState v) = board (gameState w)
     \<and> tileNotifications v = tileNotifications w
     \<and> (\<forall>t \<in> set (timers v). snd (snd t) = GameOverCheck)
     \<and> \<not> isRunning (tileFallManager v)
     \<and> nextFallTimeout (tileFallManager v) = None
     \<and> pendingFalls (tileFallManager v) = []
     \<and> stop v = v
     \<and> stop (stop w) = stop w
     \<and> onlyFallen (board (gameState w)) (board (gameState u))
     \<and> tileNotifications u = tileNotifications w
     \<and> (\<forall>t \<in> set (timers u). snd (snd t) = GameOverCheck)
     \<and> stop u = u"
proof -
  have "tracked w"
    using assms(1) by (rule tracked_reachable)
  then have quiet: "stopped (stop w)"
    by (rule stop_stopped)
  have same: "board (gameState (stop w)) = board (gameState w)"
    "tileNotifications (stop w) = tileNotifications w"
    using stop_frame [of w] by (simp_all add: tileNotifications_def)
  note timersOnly = stopped_advances [OF assms(2) quiet]
  note withFrames = stopped_continues [OF assms(3) quiet]
  have "stop v = v" "stop (stop w) = stop w" "stop u = u"
    using quiet timersOnly withFrames by (simp_all add: stop_idempotent)
  then show ?thesis
    using timersOnly withFrames quiet same unfolding stopped_def by simp
qed

lemma exampleSelect_started:
  "startGame exampleSelect
     = exampleSelect
         \<lparr>gameState := (gameState exampleSelect)\<lparr>gameStartTime := 1000\<rparr>,
          tileFallManager := \<lparr>fallInterval = 800, pendingFalls = [],
                               nextFallTimeout = Some 1, isRunning = True\<rparr>,
          timers := [(1, 1800, NextFall)], nextTimerId := 2\<rparr>"
  by (simp add: startGame_def start_def scheduleNextFall_def setTimeout_def exampleSelect_def
      example_defs TILE_FALL_INTERVAL_def)

lemma exampleRunning_state:
  "timers exampleRunning = [(2, 2400, ExecuteFall ''0,1''), (3, 2580, NextFall)]
   \<and> tileFallManager exampleRunning
       = \<lparr>fallInterval = 780, pendingFalls = [(''0,1'', 2)],
          nextFallTimeout = Some 3, isRunning = True\<rparr>
   \<and> clock exampleRunning = 1800
   \<and> emitted (events (gameState exampleRunning)) = [TileWarning ''0,1'']
   \<and> map_of (board (gameState exampleRunning)) ''0,1''
       = Some (startWarning 1800 (Tile_new (HexPosition 0 1)))"
proof -
  define w0 where
    "w0 = (startGame exampleSelect)\<lparr>timers := [], clock := 1800\<rparr>"
  have "clock exampleSelect = 1000"
    by (simp add: exampleSelect_def exampleWorld_def)
  then have run: "exampleRunning = nextFallCallback (1 / 8) (1 / 2) w0"
    by (simp add: exampleRunning_def fire_def w0_def exampleSelect_started)
  have w0: "w0 = exampleSelect
         \<lparr>gameState := (gameState exampleSelect)\<lparr>gameStartTime := 1000\<rparr>,
          tileFallManager := \<lparr>fallInterval = 800, pendingFalls = [],
                               nextFallTimeout = Some 1, isRunning = True\<rparr>,
          timers := [], nextTimerId := 2, clock := 1800\<rparr>"
    by (simp add: w0_def exampleSelect_started)
  have same: "board (gameState w0) = board (gameState exampleSelect)
      \<and> alivePlayers (gameState w0) = alivePlayers (gameState exampleSelect)
      \<and> playerObjs w0 = playerObjs exampleSelect
      \<and> centerX (gameState w0) = centerX (gameState exampleSelect)
      \<and> centerY (gameState w0) = centerY (gameState exampleSelect)"
    by (simp add: w0_def exampleSelect_started)
  have active: "activeTiles w0 = [''0,-1'', ''0,0'', ''0,1'']"
    using exampleSelect_candidates same by (simp add: activeTiles_def)
  have on: "checkPlayersOnTile posKey w0 = checkPlayersOnTile posKey exampleSelect" for posKey
    using same by (simp add: checkPlayersOnTile_def pixelKey_def split: option.splits)
  have "tilesWithPlayers w0 = tilesWithPlayers exampleSelect"
    using exampleSelect_candidates by (simp add: tilesWithPlayers_def on active)
  then have occupied: "tilesWithPlayers w0 = [''0,0'', ''0,1'']"
    using exampleSelect_candidates by simp
  have index: "randomIndex (1 / 2) (Suc (Suc 0)) = 1"
    using randomIndex_examples by simp
  have selected: "selectedKey (1 / 8) (1 / 2) w0 = ''0,1''"
    by (simp add: selectedKey_def occupied index)
  have tile: "map_of (board (gameState w0)) (selectedKey (1 / 8) (1 / 2) w0)
      = Some (Tile_new (HexPosition 0 1))"
    by (simp add: selected same) (simp add: exampleSelect_def)
  have nonempty: "activeTiles w0 \<noteq> []"
    by (simp add: active)
  have "isActive (Tile_new (HexPosition 0 1))"
    by (simp add: Tile_new_def)
  note effect = selectRandomTile_effect [OF nonempty tile this]
  show ?thesis
    by (simp add: run nextFallCallback_def effect selected Let_def accelerateFallRate_def
        scheduleNextFall_def setTimeout_def emit_def startWarning_def update_conv'
        MIN_FALL_INTERVAL_def FALL_ACCELERATION_def)
       (simp add: w0 exampleSelect_def example_defs)
qed

theorem stop_cancels_timers_witness:
  "reachable exampleRunning
   \<and> advance\<^sup>*\<^sup>* (stop exampleRunning) ((stop exampleRunning)\<lparr>clock := 100000\<rparr>)
   \<and> continues\<^sup>*\<^sup>* (stop exampleRunning) (update 16 ((stop exampleRunning)\<lparr>clock := 100000\<rparr>))
   \<and> timers exampleRunning = [(2, 2400, ExecuteFall ''0,1''), (3, 2580, NextFall)]
   \<and> timers (stop exampleRunning) = []
   \<and> board (gameState ((stop exampleRunning)\<lparr>clock := 100000\<rparr>))
       = board (gameState exampleRunning)
   \<and> pendingFalls (tileFallManager ((stop exampleRunning)\<lparr>clock := 100000\<rparr>)) = []
   \<and> nextFallTimeout (tileFallManager ((stop exampleRunning)\<lparr>clock := 100000\<rparr>)) = None
   \<and> stop (stop exampleRunning) = stop exampleRunning
   \<and> tileNotifications (update 16 ((stop exampleRunning)\<lparr>clock := 100000\<rparr>))
       = [TileWarning ''0,1'']
   \<and> onlyFallen (board (gameState exampleRunning))
        (board (gameState (update 16 ((stop exampleRunning)\<lparr>clock := 100000\<rparr>))))"
proof -
  have init: "fresh exampleSelect"
    by (simp add: fresh_def exampleSelect_def exampleWorld_def)
  have "\<not> isRunning (tileFallManager exampleSelect)"
    by (simp add: exampleSelect_def example_defs)
  then have first: "step exampleSelect (startGame exampleSelect)"
    by (rule step.gameStarts)
  have "(1, 1800, NextFall) \<in> set (timers (startGame exampleSelect))"
    by (simp add: exampleSelect_started)
  then have second: "step (startGame exampleSelect) exampleRunning"
    unfolding exampleRunning_def using isDouble_examples by (intro step.timerFires) simp_all
  have reach: "reachable exampleRunning"
    unfolding reachable_def using init first second
    by (meson rtranclp.rtrancl_into_rtrancl rtranclp.rtrancl_refl)
  have "clock (stop exampleRunning) \<le> 100000"
    using stop_frame [of exampleRunning] exampleRunning_state by simp
  then have tick: "advance (stop exampleRunning) ((stop exampleRunning)\<lparr>clock := 100000\<rparr>)"
    by (rule advance.clockMoves)
  then have later: "advance\<^sup>*\<^sup>* (stop exampleRunning) ((stop exampleRunning)\<lparr>clock := 100000\<rparr>)"
    by (rule r_into_rtranclp)
  have "continues (stop exampleRunning) ((stop exampleRunning)\<lparr>clock := 100000\<rparr>)"
    using tick by (rule continues.timeAdvances)
  moreover have "continues ((stop exampleRunning)\<lparr>clock := 100000\<rparr>)
      (update 16 ((stop exampleRunning)\<lparr>clock := 100000\<rparr>))"
    by (rule continues.frameDrawn) simp
  ultimately have drawn: "continues\<^sup>*\<^sup>* (stop exampleRunning)
      (update 16 ((stop exampleRunning)\<lparr>clock := 100000\<rparr>))"
    by (meson rtranclp.rtrancl_into_rtrancl rtranclp.rtrancl_refl)
  have cleared: "timers (stop exampleRunning) = []"
    using exampleRunning_state
    by (simp add: stop_def Let_def fold_clearTimeout clearTimeout_def)
  have trace: "tileNotifications exampleRunning = [TileWarning ''0,1'']"
    using exampleRunning_state by (simp add: tileNotifications_def)
  show ?thesis
    using reach later drawn cleared trace exampleRunning_state
      stop_cancels_timers [OF reach later drawn]
    by simp
qed

end
